theory Spec2Isabelle
  imports Complex_Main "HOL-Library.Word" "HOL-Library.Signed_Division"
begin

unbundle bit_operations_syntax

section \<open>PWM frequency planner (pwm.c)\<close>

text \<open>
  \<^verbatim>\<open>uint\<close> and \<^verbatim>\<open>uint32_t\<close> are 32-bit on the target (ARM Cortex-M0+), so
  the arithmetic of \<^verbatim>\<open>setup_pwm_outputs\<close> is that of \<open>32 word\<close>: division truncates and
  \<^verbatim>\<open>- 1\<close> wraps around at zero.  \<^verbatim>\<open>pwm_out_top\<close> is a \<^verbatim>\<open>uint16_t\<close>.
\<close>

type_synonym uint = "32 word"

definition PWM_TOP_MAX :: uint where
  "PWM_TOP_MAX = push_bit 16 1"

text \<open>Lines 93--96: the requested frequency is clamped into [10, 100000] Hz.\<close>

definition clamp_pwm_freq :: "uint \<Rightarrow> uint" where
  "clamp_pwm_freq pwm_freq =
     (if pwm_freq < 10 then 10
      else if pwm_freq > 100000 then 100000
      else pwm_freq)"

text \<open>Lines 101 and 105: \<^verbatim>\<open>sys_clock / clk_div / pwm_freq / 2 - 1\<close>.\<close>

definition pwm_top :: "uint \<Rightarrow> uint \<Rightarrow> uint \<Rightarrow> uint" where
  "pwm_top sys_clock clk_div pwm_freq = sys_clock div clk_div div pwm_freq div 2 - 1"

record pwm_plan =
  plan_freq :: uint
  plan_clk_div :: uint
  plan_top :: uint
  pwm_out_top :: "16 word"

text \<open>
  \<^verbatim>\<open>setup_pwm_outputs\<close>, lines 85--112, as a function of the two values it reads
  (\<^verbatim>\<open>clock_get_hz(clk_sys)\<close> and \<^verbatim>\<open>cfg->pwm_freq\<close>).  The result records the clamped
  frequency, the divider handed to \<^verbatim>\<open>pwm_config_set_clkdiv_int\<close>, the local \<^verbatim>\<open>top\<close>
  and the global \<^verbatim>\<open>pwm_out_top\<close> (the assignment truncates to 16 bits) handed to
  \<^verbatim>\<open>pwm_config_set_wrap\<close>.  The log calls and the per-slice hardware initialisation
  that follows do not change these values.  (\<open>top1\<close> is the source's \<^verbatim>\<open>top\<close> before
  the adjustment, \<open>top'\<close> and \<open>clk_div'\<close> the values after it.)
\<close>

definition setup_pwm_outputs :: "uint \<Rightarrow> uint \<Rightarrow> pwm_plan" where
  "setup_pwm_outputs sys_clock cfg_pwm_freq =
     (let pwm_freq = clamp_pwm_freq cfg_pwm_freq;
          clk_div = 1;
          top1 = pwm_top sys_clock clk_div pwm_freq;
          clk_div' = (if top1 \<ge> PWM_TOP_MAX then top1 div PWM_TOP_MAX + 1 else clk_div);
          top' = (if top1 \<ge> PWM_TOP_MAX then pwm_top sys_clock clk_div' pwm_freq else top1)
      in \<lparr> plan_freq = pwm_freq, plan_clk_div = clk_div', plan_top = top',
           pwm_out_top = ucast top' \<rparr>)"

section \<open>Binary32 arithmetic\<close>

text \<open>
  The duty driver and the fade parser compute in \<^verbatim>\<open>float\<close>.  The model is
  IEEE 754 binary32 with the default rounding (to nearest, ties to even), on finite values:
  a number is representable when it is \<open>m * 2^e\<close> with \<open>|m| < 2^24\<close> and
  \<open>-149 \<le> e \<le> 104\<close>; an arithmetic result is the exact result rounded.  Overflow to
  infinity, infinities and NaN are outside this model.
\<close>

definition is_f32 :: "real \<Rightarrow> bool" where
  "is_f32 x \<longleftrightarrow> (\<exists>m e. x = of_int m * 2 powi e \<and> \<bar>m\<bar> < 2 ^ 24 \<and> - 149 \<le> e \<and> e \<le> 104)"

definition f32_exponent :: "real \<Rightarrow> int" where
  "f32_exponent x = max (\<lfloor>log 2 \<bar>x\<bar>\<rfloor> - 23) (- 149)"

definition round_ties_even :: "real \<Rightarrow> int" where
  "round_ties_even x =
     (let f = \<lfloor>x\<rfloor>; r = x - of_int f
      in if r < 1 / 2 then f
         else if 1 / 2 < r then f + 1
         else if even f then f else f + 1)"

definition f32_round :: "real \<Rightarrow> real" where
  "f32_round x =
     (if x = 0 then 0
      else of_int (round_ties_even (x / 2 powi f32_exponent x)) * 2 powi f32_exponent x)"

definition f32_mul :: "real \<Rightarrow> real \<Rightarrow> real" where
  "f32_mul x y = f32_round (x * y)"

definition f32_div :: "real \<Rightarrow> real \<Rightarrow> real" where
  "f32_div x y = f32_round (x / y)"

text \<open>Conversion of a float to an integer type truncates toward zero.\<close>

definition c_trunc :: "real \<Rightarrow> int" where
  "c_trunc x = (if 0 \<le> x then \<lfloor>x\<rfloor> else \<lceil>x\<rceil>)"

section \<open>Duty driver (pwm.c)\<close>

text \<open>Conversion of a \<^verbatim>\<open>float\<close> to \<^verbatim>\<open>uint\<close> (out of range is undefined in C; here it wraps).\<close>

definition f32_to_uint :: "real \<Rightarrow> uint" where
  "f32_to_uint x = word_of_int (c_trunc x)"

text \<open>
  Lines 66--72 of \<^verbatim>\<open>set_pwm_duty_cycle\<close>: the level for a duty, given the global
  \<^verbatim>\<open>pwm_out_top\<close> (here \<open>top16\<close>).  \<^verbatim>\<open>pwm_out_top + 1\<close> is computed in \<^verbatim>\<open>int\<close>, so it does
  not wrap at 16 bits; in the middle branch it is converted to \<^verbatim>\<open>float\<close> (exactly, being at
  most \<open>2^16\<close>), the product and the quotient by 100 are \<^verbatim>\<open>float\<close> operations, and the
  assignment to \<^verbatim>\<open>level\<close> truncates.  The comparisons with 100.0 and 0.0 are exact.
\<close>

definition pwm_level :: "16 word \<Rightarrow> real \<Rightarrow> uint" where
  "pwm_level top16 duty =
     (if duty \<ge> 100 then ucast top16 + 1
      else if duty > 0 then
        f32_to_uint (f32_div (f32_mul duty (real (unat top16 + 1))) 100)
      else 0)"

text \<open>
  \<^verbatim>\<open>set_pwm_duty_cycle(out, duty)\<close>.  \<^verbatim>\<open>OUTPUT_COUNT\<close> and the pins of
  \<^verbatim>\<open>output_gpio_pwm_map\<close> come from the board's header, which is not among the sources:
  they are parameters.  The result is the call \<^verbatim>\<open>pwm_set_gpio_level(pin, level)\<close> made, or
  \<open>None\<close> when the assertion \<^verbatim>\<open>out < OUTPUT_COUNT\<close> fails.
\<close>

definition set_pwm_duty_cycle ::
  "nat \<Rightarrow> (nat \<Rightarrow> nat) \<Rightarrow> 16 word \<Rightarrow> nat \<Rightarrow> real \<Rightarrow> (nat \<times> uint) option" where
  "set_pwm_duty_cycle OUTPUT_COUNT output_gpio_pwm_map top16 out duty =
     (if \<not> out < OUTPUT_COUNT then None
      else
        (let pin = output_gpio_pwm_map out;
             level = pwm_level top16 duty
         in Some (pin, level)))"

text \<open>A pin map for the closed examples: output \<open>i\<close> on pin \<open>i\<close>.\<close>

definition sample_gpio_pwm_map :: "nat \<Rightarrow> nat" where
  "sample_gpio_pwm_map out = out"

section \<open>Fade effect (effects\_fade.c)\<close>

subsection \<open>The context\<close>

text \<open>
  \<^verbatim>\<open>fade_context_t\<close>.  The two \<^verbatim>\<open>float\<close> fields hold the value of a finite binary32
  number, a real; \<^verbatim>\<open>int64_t\<close> and \<^verbatim>\<open>uint64_t\<close> are \<open>64 word\<close> (read with \<open>sint\<close>
  where the source's type is signed), \<^verbatim>\<open>uint8_t\<close> is \<open>8 word\<close>.
\<close>

record fade_context =
  fade_in :: real
  fade_out :: real
  in_l :: "64 word"
  out_l :: "64 word"
  last_state :: "8 word"
  mode :: "8 word"
  start_t :: "64 word"

subsection \<open>Seconds to microseconds\<close>

text \<open>
  \<^verbatim>\<open>c->in_l = c->fade_in * 1000000\<close>: the \<^verbatim>\<open>int\<close> constant is converted to \<^verbatim>\<open>float\<close>
  (exactly), the product is a \<^verbatim>\<open>float\<close>, and the assignment converts it to \<^verbatim>\<open>int64_t\<close>.
  (A product outside the range of \<^verbatim>\<open>int64_t\<close> is undefined in C; here it wraps.)
\<close>

definition seconds_to_usec :: "real \<Rightarrow> 64 word" where
  "seconds_to_usec secs = word_of_int (c_trunc (f32_mul secs 1000000))"

subsection \<open>Parsing the arguments\<close>

text \<open>
  \<^verbatim>\<open>strtok_r(str, delim, &saveptr)\<close> of the C library on a string without NUL: skip the
  leading delimiters; no token if nothing is left; otherwise the token runs to the next
  delimiter, and the saved position is just behind that delimiter.  A later call with
  \<^verbatim>\<open>NULL\<close> continues from the saved position.
\<close>

definition strtok_r :: "string \<Rightarrow> string \<Rightarrow> (string \<times> string) option" where
  "strtok_r str delim =
     (let s = dropWhile (\<lambda>c. c \<in> set delim) str
      in if s = [] then None
         else Some (takeWhile (\<lambda>c. c \<notin> set delim) s,
                    drop 1 (dropWhile (\<lambda>c. c \<notin> set delim) s)))"

text \<open>
  Lines 60--71: the two nested token tests.  \<^verbatim>\<open>str_to_float\<close> (util.c, declared in
  brickpico.h, not among the sources) is a parameter: \<open>None\<close> when it returns 0, \<open>Some v\<close>
  when it returns non-zero and stores \<open>v\<close>.  The result is the pair
  (\<^verbatim>\<open>c->fade_in\<close>, \<^verbatim>\<open>c->fade_out\<close>), both starting from the default 1.0.
\<close>

definition parse_fade_times :: "(string \<Rightarrow> real option) \<Rightarrow> string \<Rightarrow> real \<times> real" where
  "parse_fade_times str_to_float s =
     (case strtok_r s '','' of
        None \<Rightarrow> (1, 1)
      | Some (tok, saveptr) \<Rightarrow>
          (case str_to_float tok of
             None \<Rightarrow> (1, 1)
           | Some arg \<Rightarrow>
               (let fade_in = (if arg \<ge> 0 then arg else 1)
                in case strtok_r saveptr '','' of
                     None \<Rightarrow> (fade_in, 1)
                   | Some (tok2, saveptr2) \<Rightarrow>
                       (case str_to_float tok2 of
                          None \<Rightarrow> (fade_in, 1)
                        | Some arg2 \<Rightarrow> (fade_in, if arg2 \<ge> 0 then arg2 else 1)))))"

text \<open>
  \<^verbatim>\<open>effect_fade_parse_args\<close>.  \<open>args = None\<close> is the \<^verbatim>\<open>NULL\<close> pointer; \<open>calloc_ok\<close>
  says whether \<^verbatim>\<open>calloc\<close> returned memory; the result \<open>None\<close> is the \<^verbatim>\<open>NULL\<close> return.
  \<^verbatim>\<open>strncopy\<close> (util.c, not among the sources either) is a parameter: the contents of
  the 64-byte buffer \<^verbatim>\<open>s\<close> after \<^verbatim>\<open>strncopy(s, args, sizeof(s))\<close>.
\<close>

definition effect_fade_parse_args ::
  "(string \<Rightarrow> nat \<Rightarrow> string) \<Rightarrow> (string \<Rightarrow> real option) \<Rightarrow> bool \<Rightarrow> string option
     \<Rightarrow> fade_context option" where
  "effect_fade_parse_args strncopy str_to_float calloc_ok args =
     (case args of
        None \<Rightarrow> None
      | Some a \<Rightarrow>
          if \<not> calloc_ok then None
          else
            (let s = strncopy a 64;
                 (fi, fo) = parse_fade_times str_to_float s
             in Some \<lparr> fade_in = fi, fade_out = fo,
                       in_l = seconds_to_usec fi, out_l = seconds_to_usec fo,
                       last_state = 0, mode = 0, start_t = 0 \<rparr>))"

subsection \<open>The per-tick state machine\<close>

text \<open>
  Signed 64-bit division truncates toward zero.  (Division by zero and
  \<^verbatim>\<open>INT64_MIN / -1\<close> are undefined in C; here they give 0 and wrap.)
\<close>

definition sdiv64 :: "64 word \<Rightarrow> 64 word \<Rightarrow> 64 word" where
  "sdiv64 a b = word_of_int (sint a sdiv sint b)"

text \<open>
  \<^verbatim>\<open>effect_fade(ctx, t_now, pwm, pwr)\<close>: the returned duty and the updated context.
  \<^verbatim>\<open>t_d = t_now - c->start_t\<close> is an unsigned difference stored in an \<^verbatim>\<open>int64_t\<close>;
  in \<^verbatim>\<open>pwm * t_d / c->in_l\<close> the \<^verbatim>\<open>uint8_t\<close> is widened to 64 bits, and the result is
  cut to \<^verbatim>\<open>uint8_t\<close> by the assignment to \<^verbatim>\<open>ret\<close>.
\<close>

definition effect_fade ::
  "fade_context \<Rightarrow> 64 word \<Rightarrow> 8 word \<Rightarrow> 8 word \<Rightarrow> 8 word \<times> fade_context" where
  "effect_fade c t_now pwm pwr =
     (if last_state c \<noteq> pwr then
        (if pwr \<noteq> 0
         then (0, c\<lparr> start_t := t_now, mode := 1, last_state := pwr \<rparr>)
         else (pwm, c\<lparr> start_t := t_now, mode := 3, last_state := pwr \<rparr>))
      else
        (let t_d = t_now - start_t c
         in if mode c = 1 then
              (if t_d <s in_l c
               then (ucast (sdiv64 (ucast pwm * t_d) (in_l c)), c\<lparr> last_state := pwr \<rparr>)
               else (pwm, c\<lparr> mode := 2, last_state := pwr \<rparr>))
            else if mode c = 2 then (pwm, c\<lparr> last_state := pwr \<rparr>)
            else if mode c = 3 then
              (if t_d <s out_l c
               then (ucast (ucast pwm - sdiv64 (ucast pwm * t_d) (out_l c)),
                     c\<lparr> last_state := pwr \<rparr>)
               else (0, c\<lparr> mode := 4, last_state := pwr \<rparr>))
            else if mode c = 4 then (0, c\<lparr> last_state := pwr \<rparr>)
            else (0, c\<lparr> last_state := pwr \<rparr>)))"

text \<open>
  The control loop calls \<^verbatim>\<open>effect_fade\<close> once per tick with the context of the previous
  call.  A tick is (\<^verbatim>\<open>t_now\<close>, \<^verbatim>\<open>pwm\<close>, \<^verbatim>\<open>pwr\<close>); \<open>fade_run\<close> gives the duties returned,
  in order, and the context after the last tick.
\<close>

fun fade_run ::
  "fade_context \<Rightarrow> (64 word \<times> 8 word \<times> 8 word) list \<Rightarrow> 8 word list \<times> fade_context" where
  "fade_run c [] = ([], c)"
| "fade_run c ((t_now, pwm, pwr) # ticks) =
     (let (ret, c') = effect_fade c t_now pwm pwr;
          (rets, c'') = fade_run c' ticks
      in (ret # rets, c''))"

subsection \<open>Sample helpers for the closed examples\<close>

text \<open>
  The two helpers of util.c are parameters of the model.  The examples below need
  instances: a bounded copy that keeps the first \<open>n - 1\<close> characters, and a parser
  that knows four literals and rejects every other token.
\<close>

definition sample_strncopy :: "string \<Rightarrow> nat \<Rightarrow> string" where
  "sample_strncopy src n = take (n - 1) src"

definition sample_str_to_float :: "string \<Rightarrow> real option" where
  "sample_str_to_float s =
     (if s = ''1.0'' then Some 1
      else if s = ''2.0'' then Some 2
      else if s = ''2.5'' then Some (5 / 2)
      else if s = ''-3'' then Some (- 3)
      else None)"

section \<open>Logger (log.c)\<close>

subsection \<open>The C library's formatting\<close>

text \<open>
  \<^verbatim>\<open>%u\<close> and \<^verbatim>\<open>%llu\<close> print an unsigned number in decimal; a field width pads on
  the left, with spaces (\<^verbatim>\<open>%6llu\<close>) or, under the \<^verbatim>\<open>0\<close> flag, with zeros
  (\<^verbatim>\<open>%06llu\<close>); a number wider than the field is printed in full.
  \<^verbatim>\<open>snprintf(buf, size, ...)\<close> keeps the first \<open>size - 1\<close> characters.
\<close>

definition digit_char :: "nat \<Rightarrow> char" where
  "digit_char d = ''0123456789'' ! d"

fun dec :: "nat \<Rightarrow> string" where
  "dec n = (if n < 10 then [digit_char n] else dec (n div 10) @ [digit_char (n mod 10)])"

declare dec.simps [simp del]

definition pad_left :: "nat \<Rightarrow> char \<Rightarrow> string \<Rightarrow> string" where
  "pad_left width c s = replicate (width - length s) c @ s"

definition snprintf :: "nat \<Rightarrow> string \<Rightarrow> string" where
  "snprintf size_of_buf s = take (size_of_buf - 1) s"

subsection \<open>What one call does\<close>

text \<open>
  The effects of \<^verbatim>\<open>log_msg\<close> on the world, in the order the calls are made:
  \<^verbatim>\<open>printf\<close> on the console, the attempt on \<^verbatim>\<open>pmem_mutex\<close> (with its timeout in
  microseconds and whether the lock was obtained), the record handed to
  \<^verbatim>\<open>u8_ringbuffer_add(log_rb, data, len, overwrite)\<close>, \<^verbatim>\<open>update_persistent_memory_crc()\<close>,
  \<^verbatim>\<open>mutex_exit\<close>, and \<^verbatim>\<open>syslog_msg(priority, "%s", buf)\<close>.  The ring buffer, the checksum
  and the syslog client are collaborators outside log.c: a call to one is recorded with its
  arguments.
\<close>

datatype log_event =
    Printf string
  | Mutex_enter_timeout_us nat bool
  | U8_ringbuffer_add string nat bool
  | Update_persistent_memory_crc
  | Mutex_exit
  | Syslog_msg int string

text \<open>
  The globals and build flags the function reads, and what its environment answers during
  one call: the core number, whether each \<^verbatim>\<open>malloc\<close> returns memory, whether the mutex is
  obtained within the timeout, and the three readings of the microsecond clock.
\<close>

record log_state =
  global_log_level :: int
  global_syslog_level :: int
  WIFI_SUPPORT :: bool
  NDEBUG :: bool

record log_env =
  core :: nat
  buf_malloc :: bool
  rbuf_malloc :: bool
  mutex_acquired :: bool
  t_start :: "64 word"
  t_stamp :: "64 word"
  t_end :: "64 word"

definition LOG_MAX_MSG_LEN :: nat where
  "LOG_MAX_MSG_LEN = 256"

text \<open>Lines 208--212: a final newline of the formatted message is removed.\<close>

definition strip_newline :: "string \<Rightarrow> string" where
  "strip_newline buf =
     (if length buf > 0 \<and> last buf = CHR 0x0A then butlast buf else buf)"

text \<open>Lines 215--217: \<^verbatim>\<open>"[%6llu.%06llu][%u]"\<close> into \<^verbatim>\<open>tstamp[32]\<close>.\<close>

definition seconds_field :: "64 word \<Rightarrow> string" where
  "seconds_field t = pad_left 6 CHR '' '' (dec (unat (t div 1000000)))"

definition microseconds_field :: "64 word \<Rightarrow> string" where
  "microseconds_field t = pad_left 6 CHR ''0'' (dec (unat (t mod 1000000)))"

definition tstamp :: "64 word \<Rightarrow> nat \<Rightarrow> string" where
  "tstamp t core_num =
     snprintf 32 (''['' @ seconds_field t @ ''.'' @ microseconds_field t @ '']['' @ dec core_num @ '']'')"

text \<open>
  Lines 214--232: under the console threshold the line is printed, and then offered to the
  persistent ring buffer if \<^verbatim>\<open>malloc(255)\<close> gives memory and the mutex is obtained within
  100 microseconds; the record is the C string \<^verbatim>\<open>rbuf\<close> with its terminating NUL
  (\<^verbatim>\<open>strlen(rbuf) + 1\<close> bytes).
\<close>

definition log_console :: "log_state \<Rightarrow> log_env \<Rightarrow> int \<Rightarrow> string \<Rightarrow> log_event list" where
  "log_console st env priority buf =
     (if priority \<le> global_log_level st then
        (let ts = tstamp (t_stamp env) (core env)
         in Printf (ts @ '' '' @ buf @ [CHR 0x0A]) #
            (if rbuf_malloc env then
               Mutex_enter_timeout_us 100 (mutex_acquired env) #
               (if mutex_acquired env then
                  (let rbuf = snprintf 255 (ts @ '' '' @ buf)
                   in [U8_ringbuffer_add (rbuf @ [CHR 0x00]) (length rbuf + 1) True,
                       Update_persistent_memory_crc,
                       Mutex_exit])
                else
                  [Printf (ts @ '' mutex timeout: FAILED to access log rinbuffer''
                              @ [CHR 0x0A])])
             else []))
      else [])"

text \<open>Lines 234--238, compiled only under \<^verbatim>\<open>WIFI_SUPPORT\<close>.\<close>

definition log_remote :: "log_state \<Rightarrow> int \<Rightarrow> string \<Rightarrow> log_event list" where
  "log_remote st priority buf =
     (if WIFI_SUPPORT st \<and> priority \<le> global_syslog_level st
      then [Syslog_msg priority buf] else [])"

text \<open>Lines 240--245: the diagnostic of a slow call, in debug builds.\<close>

definition log_slow :: "log_state \<Rightarrow> log_env \<Rightarrow> log_event list" where
  "log_slow st env =
     (if unat (t_end env - t_start env) > 10000 \<and> \<not> NDEBUG st
      then [Printf (''log_msg: core'' @ dec (core env) @ '': '' @ dec (unat (t_end env))
                    @ '' (duration='' @ dec (unat (t_end env - t_start env)) @ '')''
                    @ [CHR 0x0A])]
      else [])"

text \<open>
  \<^verbatim>\<open>log_msg(priority, format, ...)\<close>.  \<open>message\<close> is the text that \<^verbatim>\<open>format\<close> and its
  arguments expand to (a C string: no NUL in it); \<^verbatim>\<open>vsnprintf\<close> cuts it to the
  buffer.  The result is the list of effects, in order; the empty list is a call that did
  nothing.
\<close>

definition log_msg :: "log_state \<Rightarrow> log_env \<Rightarrow> int \<Rightarrow> string \<Rightarrow> log_event list" where
  "log_msg st env priority message =
     (if priority > global_log_level st \<and> priority > global_syslog_level st then []
      else if \<not> buf_malloc env then []
      else
        (let buf = strip_newline (snprintf LOG_MAX_MSG_LEN message)
         in log_console st env priority buf @ log_remote st priority buf @ log_slow st env))"

text \<open>
  Which effects touch the persistent store, which are attempts on its lock, and which
  are forwards to syslog.
\<close>

fun touches_store :: "log_event \<Rightarrow> bool" where
  "touches_store (U8_ringbuffer_add data len overwrite) = True"
| "touches_store Update_persistent_memory_crc = True"
| "touches_store e = False"

fun is_lock_attempt :: "log_event \<Rightarrow> bool" where
  "is_lock_attempt (Mutex_enter_timeout_us us ok) = True"
| "is_lock_attempt e = False"

fun is_syslog :: "log_event \<Rightarrow> bool" where
  "is_syslog (Syslog_msg p s) = True"
| "is_syslog e = False"

text \<open>
  The wire format as the specification words it, for comparison: the seconds field
  ``right-padded to a fixed width'', that is, the digits followed by spaces up to the width.
\<close>

definition spec_seconds_field :: "nat \<Rightarrow> 64 word \<Rightarrow> string" where
  "spec_seconds_field width t =
     (let digits = dec (unat (t div 1000000))
      in digits @ replicate (width - length digits) CHR '' '')"

subsection \<open>A sample call for the closed examples\<close>

text \<open>
  Both thresholds at 3 (\<^verbatim>\<open>LOG_ERR\<close>), a build with \<^verbatim>\<open>WIFI_SUPPORT\<close> and \<^verbatim>\<open>NDEBUG\<close>;
  a call on core 0 at 1.5 s after boot in which both allocations and the lock succeed.
\<close>

definition sample_log_state :: log_state where
  "sample_log_state = \<lparr> global_log_level = 3, global_syslog_level = 3,
                          WIFI_SUPPORT = True, NDEBUG = True \<rparr>"

definition sample_log_env :: log_env where
  "sample_log_env = \<lparr> core = 0, buf_malloc = True, rbuf_malloc = True, mutex_acquired = True,
                        t_start = 1499990, t_stamp = 1500000, t_end = 1500040 \<rparr>"

section \<open>Properties of binary32 rounding\<close>

lemma round_ties_even_of_int [simp]: "round_ties_even (of_int z) = z"
  by (simp add: round_ties_even_def)

lemma f32_round_scaled_int:
  assumes "x / 2 powi f32_exponent x = of_int z"
  shows "f32_round x = x"
proof (cases "x = 0")
  case True then show ?thesis by (simp add: f32_round_def)
next
  case False
  have "f32_round x = of_int z * 2 powi f32_exponent x"
    using False assms by (simp add: f32_round_def)
  also have "\<dots> = x / 2 powi f32_exponent x * 2 powi f32_exponent x" using assms by simp
  also have "\<dots> = x" by simp
  finally show ?thesis .
qed

lemma powi2_less_iff: "(2::real) powi m < 2 powi n \<longleftrightarrow> m < n"
proof
  assume "(2::real) powi m < 2 powi n"
  show "m < n"
  proof (rule ccontr)
    assume "\<not> m < n"
    hence "n \<le> m" by simp
    hence "(2::real) powi n \<le> 2 powi m" by (rule power_int_increasing) simp
    with \<open>(2::real) powi m < 2 powi n\<close> show False by simp
  qed
next
  assume "m < n"
  thus "(2::real) powi m < 2 powi n" by (rule power_int_strict_increasing) simp
qed

lemma powi2_le_iff: "(2::real) powi m \<le> 2 powi n \<longleftrightarrow> m \<le> n"
  using powi2_less_iff [of n m] by (auto simp: not_less [symmetric])

lemma powi2_pos [simp]: "0 < (2::real) powi n"
  by simp

lemma floor_log2_iff:
  assumes "0 < x"
  shows "\<lfloor>log 2 x\<rfloor> = k \<longleftrightarrow> 2 powi k \<le> x \<and> x < 2 powi (k + 1)"
proof -
  have "(2::real) powr real_of_int k = 2 powi k" "(2::real) powr real_of_int (k + 1) = 2 powi (k + 1)"
    by (rule powr_real_of_int'; simp)+
  thus ?thesis using floor_log_eq_powr_iff [of x 2 k] assms by simp
qed

lemma floor_log2_bounds:
  assumes "0 < x"
  shows "2 powi \<lfloor>log 2 x\<rfloor> \<le> x" "x < 2 powi (\<lfloor>log 2 x\<rfloor> + 1)"
  using floor_log2_iff [OF assms, of "\<lfloor>log 2 x\<rfloor>"] by simp_all

lemma f32_exponent_small:
  assumes "x \<noteq> 0" "\<bar>x\<bar> < 2 ^ 24"
  shows "f32_exponent x \<le> 0"
proof -
  have "2 powi \<lfloor>log 2 \<bar>x\<bar>\<rfloor> \<le> \<bar>x\<bar>" using assms floor_log2_bounds(1) [of "\<bar>x\<bar>"] by simp
  hence "(2::real) powi \<lfloor>log 2 \<bar>x\<bar>\<rfloor> < 2 powi 24" using assms by simp
  hence "\<lfloor>log 2 \<bar>x\<bar>\<rfloor> < 24" by (simp only: powi2_less_iff)
  thus ?thesis by (simp add: f32_exponent_def)
qed

lemma f32_round_of_int:
  assumes "\<bar>n\<bar> < 2 ^ 24"
  shows "f32_round (of_int n) = of_int n"
proof (cases "n = 0")
  case True then show ?thesis by (simp add: f32_round_def)
next
  case False
  define e where "e = f32_exponent (of_int n)"
  have "\<bar>real_of_int n\<bar> < 2 ^ 24" using assms by (metis of_int_abs of_int_less_numeral_power_cancel_iff)
  hence "e \<le> 0" using False f32_exponent_small [of "of_int n"] by (simp add: e_def)
  then obtain k where k: "e = - int k" by (metis neg_le_0_iff_le zero_le_imp_eq_int minus_minus)
  have "real_of_int n / 2 powi e = of_int (n * 2 ^ k)"
    by (simp add: k power_int_minus field_simps)
  thus ?thesis unfolding e_def by (rule f32_round_scaled_int)
qed


lemma powi2_add: "(2::real) powi (a + b) = 2 powi a * 2 powi b"
  by (simp add: power_int_add)

lemma powi2_nonneg_int:
  assumes "0 \<le> e"
  shows "(2::real) powi e = of_int (2 ^ nat e)"
  using assms by (simp add: power_int_def)

lemma scaled_int:
  assumes "0 \<le> e"
  shows "\<exists>z. real_of_int m * 2 powi e = of_int z"
proof
  show "real_of_int m * 2 powi e = of_int (m * 2 ^ nat e)"
    using powi2_nonneg_int [OF assms] by simp
qed

lemma round_ties_even_le_ceiling: "round_ties_even s \<le> \<lceil>s\<rceil>"
proof -
  have "\<lfloor>s\<rfloor> \<le> \<lceil>s\<rceil>" by (rule floor_le_ceiling)
  moreover have "\<lfloor>s\<rfloor> + 1 \<le> \<lceil>s\<rceil>" if "s - of_int \<lfloor>s\<rfloor> \<noteq> 0"
  proof -
    have "of_int \<lfloor>s\<rfloor> < s" using that by linarith
    hence "\<lfloor>s\<rfloor> < \<lceil>s\<rceil>" by linarith
    thus ?thesis by simp
  qed
  ultimately show ?thesis
    by (auto simp: round_ties_even_def Let_def)
qed

lemma round_ties_even_nonneg: "0 \<le> s \<Longrightarrow> 0 \<le> round_ties_even s"
  by (auto simp: round_ties_even_def Let_def)

lemma f32_round_nonneg:
  assumes "0 \<le> x"
  shows "0 \<le> f32_round x"
proof (cases "x = 0")
  case True thus ?thesis by (simp add: f32_round_def)
next
  case False
  have "0 \<le> x / 2 powi f32_exponent x" using assms by simp
  hence "0 \<le> round_ties_even (x / 2 powi f32_exponent x)" by (rule round_ties_even_nonneg)
  thus ?thesis using False by (simp add: f32_round_def)
qed

text \<open>Rounding never passes a representable number\<close>
lemma f32_round_le:
  assumes y: "is_f32 y" and x: "0 < x" "x \<le> y"
  shows "f32_round x \<le> y"
proof -
  define e where "e = f32_exponent x"
  define s where "s = x / 2 powi e"
  obtain m e' where m: "y = of_int m * 2 powi e'" "\<bar>m\<bar> < 2 ^ 24" "- 149 \<le> e'"
    using y by (auto simp: is_f32_def)
  have ypos: "0 < y" using x by simp
  have e'e: "e \<le> e'"
  proof (rule ccontr)
    assume "\<not> e \<le> e'"
    hence lt: "e' < e" by simp
    hence "- 149 < e" using m(3) by simp
    hence e: "e = \<lfloor>log 2 \<bar>x\<bar>\<rfloor> - 23" by (simp add: e_def f32_exponent_def)
    have "2 powi (e + 23) \<le> x" using floor_log2_bounds(1) [of x] x(1) e by simp
    moreover have "m < 2 ^ 24" using m(2) by simp
    hence "real_of_int m < real_of_int (2 ^ 24)" by (simp only: of_int_less_iff)
    hence "real_of_int m < 2 ^ 24" by simp
    hence "y < 2 ^ 24 * 2 powi e'" using m(1) by simp
    hence "y < 2 powi (24 + e')" by (simp add: powi2_add)
    moreover have "(2::real) powi (24 + e') \<le> 2 powi (e + 23)"
      using lt by (simp add: powi2_le_iff)
    ultimately show False using x(2) by linarith
  qed
  then obtain z where z: "real_of_int m * 2 powi (e' - e) = of_int z"
    using scaled_int [of "e' - e" m] by auto
  have "y / 2 powi e = real_of_int m * 2 powi (e' - e)"
    by (simp add: m(1) power_int_diff)
  hence yz: "y / 2 powi e = of_int z" using z by simp
  have "s \<le> y / 2 powi e" unfolding s_def using x(2) by (simp add: divide_right_mono)
  hence "s \<le> of_int z" using yz by simp
  hence "\<lceil>s\<rceil> \<le> z" by (simp add: ceiling_le_iff)
  hence "round_ties_even s \<le> z" using round_ties_even_le_ceiling [of s] by linarith
  hence "real_of_int (round_ties_even s) * 2 powi e \<le> of_int z * 2 powi e"
    by (simp add: mult_right_mono)
  also have "\<dots> = y" using yz by (simp add: field_simps)
  finally show ?thesis using x(1) by (simp add: f32_round_def e_def s_def)
qed

text \<open>A representable number in (2^k, 2^(k+1)] is a multiple of 2^(k-23)\<close>
lemma f32_multiple:
  assumes y: "is_f32 y" and k: "2 powi k < y" "y \<le> 2 powi (k + 1)"
  shows "\<exists>n. y = of_int n * 2 powi (k - 23) \<and> 2 ^ 23 < n \<and> n \<le> 2 ^ 24"
proof -
  obtain m e where m: "y = of_int m * 2 powi e" "\<bar>m\<bar> < 2 ^ 24"
    using y by (auto simp: is_f32_def)
  have "m < 2 ^ 24" using m(2) by simp
  hence "real_of_int m < real_of_int (2 ^ 24)" by (simp only: of_int_less_iff)
  hence "real_of_int m < 2 ^ 24" by simp
  hence "y < 2 ^ 24 * 2 powi e" using m(1) by simp
  hence "y < 2 powi (24 + e)" by (simp add: powi2_add)
  hence "(2::real) powi k < 2 powi (24 + e)" using k(1) by linarith
  hence "k < 24 + e" by (simp only: powi2_less_iff)
  hence ge: "0 \<le> e - (k - 23)" by simp
  define n where "n = m * 2 ^ nat (e - (k - 23))"
  have "real_of_int m * 2 powi (e - (k - 23)) = of_int n"
    using powi2_nonneg_int [OF ge] by (simp add: n_def)
  moreover have "y = (real_of_int m * 2 powi (e - (k - 23))) * 2 powi (k - 23)"
    using m(1) powi2_add [of "e - (k - 23)" "k - 23"] by simp
  ultimately have yn: "y = of_int n * 2 powi (k - 23)" by simp
  have "2 powi k = 2 ^ 23 * (2::real) powi (k - 23)"
    using powi2_add [of 23 "k - 23"] by simp
  hence "2 ^ 23 * (2::real) powi (k - 23) < of_int n * 2 powi (k - 23)" using k(1) yn by simp
  hence "(2::real) ^ 23 < of_int n" by simp
  hence "real_of_int (2 ^ 23) < of_int n" by simp
  hence lo: "2 ^ 23 < n" by (simp only: of_int_less_iff)
  have "2 powi (k + 1) = 2 ^ 24 * (2::real) powi (k - 23)"
    using powi2_add [of 24 "k - 23"] by (simp add: add.commute)
  hence "of_int n * 2 powi (k - 23) \<le> 2 ^ 24 * (2::real) powi (k - 23)" using k(2) yn by simp
  hence "of_int n \<le> (2::real) ^ 24" by simp
  hence "real_of_int n \<le> of_int (2 ^ 24)" by simp
  hence hi: "n \<le> 2 ^ 24" by (simp only: of_int_le_iff)
  show ?thesis using yn lo hi by blast
qed

text \<open>Below the midpoint under a representable y, rounding stays a full step under y\<close>
lemma f32_round_below:
  assumes y: "is_f32 y" and k: "2 powi k < y" "y \<le> 2 powi (k + 1)" "- 126 \<le> k" "k \<le> 127"
    and x: "0 < x" "x < y - 2 powi (k - 24)"
  shows "f32_round x \<le> y - 2 powi (k - 23)"
proof -
  define u :: real where "u = 2 powi (k - 23)"
  have upos: "0 < u" by (simp add: u_def)
  have half: "2 powi (k - 24) = u / 2"
    using powi2_add [of "- 1" "k - 23"] by (simp add: u_def)
  obtain n where n: "y = of_int n * u" "2 ^ 23 < n" "n \<le> 2 ^ 24"
    using f32_multiple [OF y k(1,2)] by (auto simp: u_def)
  have pred: "y - u = of_int (n - 1) * u" by (simp add: n(1) algebra_simps)
  have fpred: "is_f32 (y - u)"
    unfolding is_f32_def pred
    using n(2,3) k(3,4) by (intro exI [of _ "n - 1"] exI [of _ "k - 23"]) (simp add: u_def)
  show ?thesis
  proof (cases "x \<le> y - u")
    case True
    thus ?thesis using f32_round_le [OF fpred x(1)] by (simp add: u_def)
  next
    case False
    hence gt: "y - u < x" by simp
    have pk: "2 powi k = 2 ^ 23 * u" using powi2_add [of 23 "k - 23"] by (simp add: u_def)
    have "2 ^ 23 \<le> n - 1" using n(2) by simp
    hence "real_of_int (2 ^ 23) \<le> real_of_int (n - 1)" by (simp only: of_int_le_iff)
    hence "2 ^ 23 * u \<le> of_int (n - 1) * u" using upos by simp
    hence lo: "2 powi k \<le> x" using gt pk pred by linarith
    have hi: "x < 2 powi (k + 1)" using x(2) k(2) upos half by linarith
    have "\<lfloor>log 2 x\<rfloor> = k" using floor_log2_iff [OF x(1), of k] lo hi by simp
    hence e: "f32_exponent x = k - 23" using x(1) k(3) by (simp add: f32_exponent_def)
    define s where "s = x / u"
    have s1: "of_int (n - 1) < s" using gt pred upos by (simp add: s_def pos_less_divide_eq)
    have "x < of_int n * u - u / 2" using x(2) half n(1) by simp
    hence "x < (of_int n - 1 / 2) * u" by (simp add: algebra_simps)
    hence s2: "s < of_int n - 1 / 2" using upos by (simp add: s_def pos_divide_less_eq)
    have fl: "\<lfloor>s\<rfloor> = n - 1" using s1 s2 by linarith
    have "s - of_int \<lfloor>s\<rfloor> < 1 / 2" using s2 fl by simp
    hence "round_ties_even s = n - 1" using fl by (simp add: round_ties_even_def Let_def)
    hence "f32_round x = of_int (n - 1) * u"
      using x(1) e by (simp add: f32_round_def s_def u_def)
    thus ?thesis using pred by (simp add: u_def)
  qed
qed

text \<open>Every positive real lies in a half-open binade (2^k, 2^(k+1)]\<close>
lemma binade_ex:
  fixes y :: real
  assumes "0 < y"
  shows "\<exists>k. 2 powi k < y \<and> y \<le> 2 powi (k + 1)"
proof (cases "y = 2 powi \<lfloor>log 2 y\<rfloor>")
  case True
  have "(2::real) powi (\<lfloor>log 2 y\<rfloor> - 1) < 2 powi \<lfloor>log 2 y\<rfloor>" by (simp add: powi2_less_iff)
  thus ?thesis using True by (intro exI [of _ "\<lfloor>log 2 y\<rfloor> - 1"]) simp
next
  case False
  thus ?thesis using floor_log2_bounds [OF assms] by (intro exI [of _ "\<lfloor>log 2 y\<rfloor>"]) simp
qed

lemma is_f32_of_int:
  assumes "\<bar>n\<bar> < 2 ^ 24"
  shows "is_f32 (of_int n)"
  unfolding is_f32_def using assms by (intro exI [of _ n] exI [of _ 0]) simp

text \<open>No binary32 number lies strictly between \<open>100 - 2^-17\<close> and 100.\<close>
lemma f32_below_100:
  assumes d: "is_f32 d" "d < 100"
  shows "d \<le> 100 - 2 powi (- 17)"
proof (cases "d \<le> 64")
  case True
  have "(2::real) powi (- 17) \<le> 2 powi 0" by (simp only: powi2_le_iff)
  thus ?thesis using True by simp
next
  case False
  hence "2 powi 6 < d" by simp
  moreover have "d \<le> 2 powi (6 + 1)" using d(2) by simp
  ultimately obtain n where n: "d = of_int n * 2 powi (6 - 23)"
    using f32_multiple [OF d(1), of 6] by blast
  have p: "(2::real) powi (- 17) * 2 ^ 17 = 1"
    using powi2_add [of "- 17" 17] by simp
  have "d * 2 ^ 17 = of_int n" using n p by simp
  moreover have "d * 2 ^ 17 < 100 * 2 ^ 17" using d(2) by simp
  ultimately have "real_of_int n < real_of_int 13107200" by simp
  hence "n < 13107200" by (simp only: of_int_less_iff)
  hence "n \<le> 13107199" by simp
  hence "real_of_int n \<le> real_of_int 13107199" by (simp only: of_int_le_iff)
  hence "d * 2 ^ 17 \<le> 100 * 2 ^ 17 - 1" using \<open>d * 2 ^ 17 = of_int n\<close> by simp
  hence "d * 2 ^ 17 \<le> (100 - 2 powi (- 17)) * 2 ^ 17" using p by (simp add: algebra_simps)
  thus ?thesis by simp
qed

lemma f32_round_id:
  assumes "is_f32 x"
  shows "f32_round x = x"
proof (cases "x = 0")
  case True thus ?thesis by (simp add: f32_round_def)
next
  case False
  obtain m e where m: "x = of_int m * 2 powi e" "\<bar>m\<bar> < 2 ^ 24" "- 149 \<le> e"
    using assms by (auto simp: is_f32_def)
  have "real_of_int \<bar>m\<bar> < real_of_int (2 ^ 24)" using m(2) by (simp only: of_int_less_iff)
  hence "\<bar>real_of_int m\<bar> < 2 ^ 24" by simp
  hence "\<bar>x\<bar> < 2 ^ 24 * 2 powi e" by (simp add: m(1) abs_mult)
  hence "\<bar>x\<bar> < 2 powi (24 + e)" by (simp add: powi2_add)
  moreover have "2 powi \<lfloor>log 2 \<bar>x\<bar>\<rfloor> \<le> \<bar>x\<bar>"
    using floor_log2_bounds(1) [of "\<bar>x\<bar>"] False by simp
  ultimately have "(2::real) powi \<lfloor>log 2 \<bar>x\<bar>\<rfloor> < 2 powi (24 + e)" by linarith
  hence "\<lfloor>log 2 \<bar>x\<bar>\<rfloor> < 24 + e" by (simp only: powi2_less_iff)
  hence le: "0 \<le> e - f32_exponent x" using m(3) by (simp add: f32_exponent_def)
  have "x / 2 powi f32_exponent x = real_of_int m * 2 powi (e - f32_exponent x)"
    by (simp add: m(1) power_int_diff)
  then obtain z where "x / 2 powi f32_exponent x = of_int z"
    using scaled_int [OF le, of m] by auto
  thus ?thesis by (rule f32_round_scaled_int)
qed

text \<open>
  A duty below 100 never reaches the full-scale level: the binary32 value of
  \<open>d * T / 100\<close> stays below \<open>T\<close>.
\<close>
lemma duty_below_full_scale:
  fixes T :: nat
  assumes d: "is_f32 d" "0 < d" "d < 100" and T: "1 \<le> T" "T \<le> 65536"
  shows "0 \<le> f32_div (f32_mul d (real T)) 100" "f32_div (f32_mul d (real T)) 100 < real T"
proof -
  define x where "x = d * real T"
  define y where "y = 100 * real T"
  define p where "p = f32_round x"
  have xpos: "0 < x" using d(2) T(1) by (simp add: x_def)
  have small: "(2::real) powi (- 17) * 128 = 2 powi (- 24) * 2 ^ 14" "(2::real) powi (- 24) > 0"
    using powi2_add [of "- 24" 7] by simp_all
  have dle: "d \<le> 100 - 2 powi (- 17)" using f32_below_100 [OF d(1,3)] .
  have "x \<le> (100 - 2 powi (- 17)) * real T"
    unfolding x_def by (rule mult_right_mono [OF dle]) simp
  hence xle: "x \<le> y - 2 powi (- 17) * real T" by (simp add: y_def algebra_simps)
  have yf: "is_f32 y"
  proof -
    have "\<bar>int (100 * T)\<bar> < 2 ^ 24" using T(2) by simp
    hence "is_f32 (of_int (int (100 * T)))" by (rule is_f32_of_int)
    thus ?thesis by (simp add: y_def)
  qed
  have y100: "100 \<le> y" "y \<le> 6553600" using T by (simp_all add: y_def)
  obtain k where k: "2 powi k < y" "y \<le> 2 powi (k + 1)"
    using binade_ex [of y] y100(1) by auto
  have "(2::real) powi k < 2 powi 23" using k(1) y100(2) by simp
  hence k23: "k < 23" by (simp only: powi2_less_iff)
  have "(2::real) powi 6 < 2 powi (k + 1)" using k(2) y100(1) by simp
  hence "6 < k + 1" by (simp only: powi2_less_iff)
  hence k6: "6 \<le> k" by simp
  have h24: "2 powi (k - 24) = 2 powi k * (2::real) powi (- 24)"
    using powi2_add [of k "- 24"] by simp
  have h23: "2 powi (k - 23) = 2 powi (k + 1) * (2::real) powi (- 24)"
    using powi2_add [of "k + 1" "- 24"] by simp
  have "2 powi (k - 24) < y * (2::real) powi (- 24)" unfolding h24 using k(1) by simp
  also have "\<dots> \<le> 2 powi (- 17) * real T"
    using powi2_add [of "- 24" 7] T(1) by (simp add: y_def)
  finally have "x < y - 2 powi (k - 24)" using xle by linarith
  hence "p \<le> y - 2 powi (k - 23)"
    unfolding p_def using f32_round_below [OF yf k] k6 k23 xpos by simp
  moreover have "y * (2::real) powi (- 24) \<le> 2 powi (k - 23)" unfolding h23 using k(2) by simp
  ultimately have ple: "p \<le> y - y * 2 powi (- 24)" by linarith
  have p0: "0 \<le> p" unfolding p_def using xpos by (intro f32_round_nonneg) simp
  define x' where "x' = p / 100"
  have x'0: "0 \<le> x'" using p0 by (simp add: x'_def)
  have x'le: "x' \<le> real T - real T * 2 powi (- 24)"
    using ple by (simp add: x'_def y_def algebra_simps)
  have q: "f32_div (f32_mul d (real T)) 100 = f32_round x'"
    by (simp add: f32_div_def f32_mul_def x'_def p_def x_def)
  show "0 \<le> f32_div (f32_mul d (real T)) 100" unfolding q using x'0 by (rule f32_round_nonneg)
  show "f32_div (f32_mul d (real T)) 100 < real T"
  proof (cases "x' = 0")
    case True
    thus ?thesis using T(1) by (simp add: q f32_round_def)
  next
    case False
    hence x'pos: "0 < x'" using x'0 by simp
    have Tf: "is_f32 (real T)"
    proof -
      have "\<bar>int T\<bar> < 2 ^ 24" using T(2) by simp
      hence "is_f32 (of_int (int T))" by (rule is_f32_of_int)
      thus ?thesis by simp
    qed
    obtain j where j: "2 powi j < real T" "real T \<le> 2 powi (j + 1)"
      using binade_ex [of "real T"] T(1) by auto
    have "(2::real) powi j < 2 powi 16" using j(1) T(2) by simp
    hence j16: "j < 16" by (simp only: powi2_less_iff)
    have "(2::real) powi 0 \<le> 2 powi (j + 1)" using j(2) T(1) by simp
    hence "0 \<le> j + 1" by (simp only: powi2_le_iff)
    hence j0: "- 1 \<le> j" by simp
    have g24: "2 powi (j - 24) = 2 powi j * (2::real) powi (- 24)"
      using powi2_add [of j "- 24"] by simp
    have "2 powi (j - 24) < real T * (2::real) powi (- 24)" unfolding g24 using j(1) by simp
    hence "x' < real T - 2 powi (j - 24)" using x'le by linarith
    hence "f32_round x' \<le> real T - 2 powi (j - 23)"
      using f32_round_below [OF Tf j] j0 j16 x'pos by simp
    moreover have "0 < (2::real) powi (j - 23)" by simp
    ultimately show ?thesis unfolding q by linarith
  qed
qed

section \<open>Properties of the frequency planner\<close>

lemma clamp_bounds: "10 \<le> unat (clamp_pwm_freq f) \<and> unat (clamp_pwm_freq f) \<le> 100000"
  by (auto simp: clamp_pwm_freq_def word_less_nat_alt word_le_nat_alt not_less)

lemma unat_pwm_top:
  assumes d: "0 < unat d" and f: "0 < unat f" and ok: "2 * unat f * unat d \<le> unat c"
  shows "unat (pwm_top c d f) + 1 = unat c div (2 * unat f * unat d)"
proof -
  have e: "unat (c div d div f div 2) = unat c div (2 * unat f * unat d)"
    by (simp add: unat_div div_mult2_eq mult.commute mult.left_commute)
  have "1 \<le> unat c div (2 * unat f * unat d)"
    using ok d f by (simp add: Suc_le_eq div_greater_zero_iff)
  hence "1 \<le> unat (c div d div f div 2)" using e by simp
  hence "unat (c div d div f div 2 - 1) = unat (c div d div f div 2) - 1"
    by (simp add: unat_sub word_le_nat_alt)
  thus ?thesis using e \<open>1 \<le> unat (c div d div f div 2)\<close> by (simp add: pwm_top_def)
qed

lemma unat_PWM_TOP_MAX: "unat PWM_TOP_MAX = 65536"
  by (simp add: PWM_TOP_MAX_def)

lemma unat_adjusted_div:
  "unat (t div PWM_TOP_MAX + 1 :: uint) = unat t div 65536 + 1"
proof -
  have "unat (t div PWM_TOP_MAX) = unat t div 65536"
    by (simp add: unat_div unat_PWM_TOP_MAX)
  moreover have "unat t < 2 ^ 32" using unsigned_less [of t] by simp
  hence "unat t div 65536 < 65536" by simp
  ultimately show ?thesis by (simp add: unat_word_ariths)
qed

lemma planner_nat:
  fixes sys_clock cfg :: uint
  defines "p \<equiv> setup_pwm_outputs sys_clock cfg"
  defines "f \<equiv> unat (clamp_pwm_freq cfg)"
  defines "M \<equiv> unat sys_clock div (2 * f)"
  assumes ok: "2 * f \<le> unat sys_clock"
  shows "unat (plan_clk_div p) = (if 65536 \<le> M - 1 then (M - 1) div 65536 + 1 else 1)"
    and "unat (plan_top p) + 1 = unat sys_clock div (2 * f * unat (plan_clk_div p))"
    and "unat (plan_top p) < 65536"
proof -
  have f: "10 \<le> f" "f \<le> 100000" using clamp_bounds [of cfg] by (simp_all add: f_def)
  have t1: "unat (pwm_top sys_clock 1 (clamp_pwm_freq cfg)) + 1 = M"
    using unat_pwm_top [of 1 "clamp_pwm_freq cfg" sys_clock] ok f by (simp add: f_def M_def)
  hence t1': "unat (pwm_top sys_clock 1 (clamp_pwm_freq cfg)) = M - 1" by simp
  have M1: "1 \<le> M" using t1 by simp
  show d: "unat (plan_clk_div p) = (if 65536 \<le> M - 1 then (M - 1) div 65536 + 1 else 1)"
    by (simp add: p_def setup_pwm_outputs_def Let_def word_le_nat_alt unat_PWM_TOP_MAX
        t1' unat_adjusted_div)
  show t: "unat (plan_top p) + 1 = unat sys_clock div (2 * f * unat (plan_clk_div p))"
  proof (cases "65536 \<le> M - 1")
    case False
    then show ?thesis using t1 d
      by (simp add: p_def setup_pwm_outputs_def Let_def word_le_nat_alt unat_PWM_TOP_MAX t1' M_def)
  next
    case True
    define dv :: uint where "dv = pwm_top sys_clock 1 (clamp_pwm_freq cfg) div PWM_TOP_MAX + 1"
    have dv: "unat dv = (M - 1) div 65536 + 1"
      by (simp add: dv_def unat_adjusted_div t1')
    have "unat dv \<le> M" using True dv by simp
    hence "2 * f * unat dv \<le> 2 * f * M" by simp
    also have "\<dots> \<le> unat sys_clock" by (simp add: M_def)
    finally have ok2: "2 * f * unat dv \<le> unat sys_clock" .
    have "unat (pwm_top sys_clock dv (clamp_pwm_freq cfg)) + 1
          = unat sys_clock div (2 * f * unat dv)"
      using unat_pwm_top [of dv "clamp_pwm_freq cfg" sys_clock] ok2 f dv by (simp add: f_def)
    moreover have "plan_top p = pwm_top sys_clock dv (clamp_pwm_freq cfg)"
      "plan_clk_div p = dv"
      using True
      by (simp_all add: p_def setup_pwm_outputs_def Let_def word_le_nat_alt unat_PWM_TOP_MAX t1' dv_def)
    ultimately show ?thesis by simp
  qed
  show "unat (plan_top p) < 65536"
  proof (cases "65536 \<le> M - 1")
    case False
    then show ?thesis using t d by (simp add: M_def)
  next
    case True
    let ?d = "(M - 1) div 65536 + 1"
    have "M - 1 < ?d * 65536" using div_less_iff_less_mult [of 65536 "M - 1" ?d] by simp
    hence "M \<le> ?d * 65536" using M1 by simp
    hence "M div ?d \<le> 65536"
      by (metis add.commute div_le_mono div_mult_self1_is_m zero_less_Suc Suc_eq_plus1 mult.commute plus_1_eq_Suc)
    moreover have "unat sys_clock div (2 * f * ?d) = M div ?d"
      unfolding M_def by (rule div_mult2_eq)
    ultimately show ?thesis using t d True by simp
  qed
qed

lemma ceiling_succ_div:
  fixes m b :: nat
  assumes b: "0 < b"
  shows "\<lceil>(real m + 1) / real b\<rceil> = int (m div b) + 1"
proof (rule ceiling_unique)
  have le: "b * (m div b) \<le> m" by simp
  have lt: "m < b * (m div b) + b" using b dividend_less_times_div [of b m] by (simp add: add.commute)
  have "real (b * (m div b)) < real m + 1" using le by linarith
  hence "real (m div b) * real b < real m + 1" by (simp add: mult.commute)
  hence "real (m div b) < (real m + 1) / real b" using b by (simp add: pos_less_divide_eq)
  thus "of_int (int (m div b) + 1) - 1 < (real m + 1) / real b" by simp
  have "real m + 1 \<le> real (b * (m div b) + b)" using lt by linarith
  hence "real m + 1 \<le> (real (m div b) + 1) * real b" by (simp add: algebra_simps)
  hence "(real m + 1) / real b \<le> real (m div b) + 1" using b by (simp add: pos_divide_le_eq)
  thus "(real m + 1) / real b \<le> of_int (int (m div b) + 1)" by simp
qed

lemma ceiling_div_iff:
  fixes m b :: nat
  assumes b: "0 < b"
  shows "\<lceil>real m / real b\<rceil> = int (m div b) + 1 \<longleftrightarrow> \<not> b dvd m"
proof (cases "b dvd m")
  case True
  then obtain k where k: "m = b * k" ..
  hence "real m / real b = real k" using b by simp
  hence "\<lceil>real m / real b\<rceil> = int k" by simp
  moreover have "m div b = k" using k b by simp
  ultimately show ?thesis using True by simp
next
  case False
  hence r: "0 < m mod b" by (simp add: dvd_eq_mod_eq_0)
  have m: "m = b * (m div b) + m mod b" by simp
  have "\<lceil>real m / real b\<rceil> = int (m div b) + 1"
  proof (rule ceiling_unique)
    have "real (b * (m div b)) < real m" using m r by linarith
    hence "real (m div b) * real b < real m" by (simp add: mult.commute)
    hence "real (m div b) < real m / real b" using b by (simp add: pos_less_divide_eq)
    thus "of_int (int (m div b) + 1) - 1 < real m / real b" by simp
    have "m < b * (m div b) + b" using b dividend_less_times_div [of b m] by (simp add: add.commute)
    hence "real m \<le> real (b * (m div b) + b)" by linarith
    hence "real m \<le> (real (m div b) + 1) * real b" by (simp add: algebra_simps)
    hence "real m / real b \<le> real (m div b) + 1" using b by (simp add: pos_divide_le_eq)
    thus "real m / real b \<le> of_int (int (m div b) + 1)" by simp
  qed
  thus ?thesis using False by simp
qed


text \<open>
  Claim C1.  For every requested frequency (clamped into [10, 100000] Hz) and every system
  clock that gives the counter at least one tick per half period (\<open>2 * frequency \<le> clock\<close>;
  any clock of 200 kHz or more does), \<^verbatim>\<open>setup_pwm_outputs\<close> ends with \<open>top < 65536\<close>,
  so that \<^verbatim>\<open>pwm_out_top\<close> holds it without truncation, and with a divider of at least 1;
  the phase-correct output frequency \<open>clock / divider / (top + 1) / 2\<close> is at least the
  requested one and exceeds it by less than the fraction \<open>1 / (top + 1)\<close>, the step of the
  counter.
\<close>

theorem setup_pwm_outputs_plan:
  fixes sys_clock cfg_pwm_freq :: uint
  assumes plausible: "2 * unat (clamp_pwm_freq cfg_pwm_freq) \<le> unat sys_clock"
  shows "(let p = setup_pwm_outputs sys_clock cfg_pwm_freq;
              clock = real (unat sys_clock);
              frequency = real (unat (clamp_pwm_freq cfg_pwm_freq));
              divider = real (unat (plan_clk_div p));
              top_value = real (unat (plan_top p))
          in unat (plan_top p) < 65536
           \<and> unat (pwm_out_top p) = unat (plan_top p)
           \<and> 1 \<le> unat (plan_clk_div p)
           \<and> plan_freq p = clamp_pwm_freq cfg_pwm_freq
           \<and> frequency \<le> clock / divider / (top_value + 1) / 2
           \<and> clock / divider / (top_value + 1) / 2 < frequency * (1 + 1 / (top_value + 1)))"
proof -
  define p where "p = setup_pwm_outputs sys_clock cfg_pwm_freq"
  define f where "f = unat (clamp_pwm_freq cfg_pwm_freq)"
  define d where "d = unat (plan_clk_div p)"
  define T where "T = unat (plan_top p) + 1"
  define N where "N = unat sys_clock"
  note pl = planner_nat [OF plausible, folded p_def f_def d_def N_def]
  have f: "10 \<le> f" using clamp_bounds [of cfg_pwm_freq] by (simp add: f_def)
  have d: "1 \<le> d" using pl(1) by (simp add: d_def split: if_splits)
  have T: "T = N div (2 * f * d)" using pl(2) by (simp add: T_def)
  have lt: "unat (plan_top p) < 65536" by (rule pl(3))
  have "unat (pwm_out_top p) = unat (plan_top p) mod 2 ^ 16"
    by (simp add: p_def setup_pwm_outputs_def Let_def unsigned_ucast_eq take_bit_eq_mod)
  hence trunc: "unat (pwm_out_top p) = unat (plan_top p)" using lt by simp
  have fr: "plan_freq p = clamp_pwm_freq cfg_pwm_freq"
    by (simp add: p_def setup_pwm_outputs_def Let_def)
  have pos: "0 < 2 * f * d" using f d by simp
  have lo: "T * (2 * f * d) \<le> N" unfolding T by simp
  have hi: "N < (T + 1) * (2 * f * d)"
    unfolding T using pos dividend_less_div_times [of "2 * f * d" N] by (simp add: algebra_simps)
  have Tpos: "0 < T" by (simp add: T_def)
  have rlo: "real f \<le> real N / real d / real T / 2"
  proof -
    have "real (T * (2 * f * d)) \<le> real N" using lo by (simp only: of_nat_le_iff)
    hence "real f * (real d * real T * 2) \<le> real N" by (simp add: algebra_simps)
    moreover have "0 < real d * real T * 2" using d Tpos by simp
    ultimately have "real f \<le> real N / (real d * real T * 2)"
      by (simp add: pos_le_divide_eq)
    thus ?thesis by (simp add: divide_divide_eq_left)
  qed
  have rhi: "real N / real d / real T / 2 < real f * (1 + 1 / real T)"
  proof -
    have "real N < real ((T + 1) * (2 * f * d))" using hi by (simp only: of_nat_less_iff)
    moreover have "(real f * (1 + 1 / real T)) * (real d * real T * 2) = real ((T + 1) * (2 * f * d))"
      using Tpos by (simp add: field_simps)
    ultimately have "real N < (real f * (1 + 1 / real T)) * (real d * real T * 2)"
      by simp
    moreover have "0 < real d * real T * 2" using d Tpos by simp
    ultimately have "real N / (real d * real T * 2) < real f * (1 + 1 / real T)"
      by (simp add: pos_divide_less_eq)
    thus ?thesis by (simp add: divide_divide_eq_left)
  qed
  have "real (unat (plan_top p)) + 1 = real T" by (simp add: T_def)
  thus ?thesis
    using lt trunc d fr rlo rhi
    unfolding Let_def p_def [symmetric] f_def [symmetric] d_def [symmetric] N_def [symmetric]
    by simp
qed


theorem setup_pwm_outputs_plan_witness:
  "2 * unat (clamp_pwm_freq 10) \<le> unat (125000000 :: uint) \<and>
   (let p = setup_pwm_outputs 125000000 10;
              clock = real (unat (125000000 :: uint));
              frequency = real (unat (clamp_pwm_freq 10));
              divider = real (unat (plan_clk_div p));
              top_value = real (unat (plan_top p))
          in unat (plan_top p) < 65536
           \<and> unat (pwm_out_top p) = unat (plan_top p)
           \<and> 1 \<le> unat (plan_clk_div p)
           \<and> plan_freq p = clamp_pwm_freq 10
           \<and> frequency \<le> clock / divider / (top_value + 1) / 2
           \<and> clock / divider / (top_value + 1) / 2 < frequency * (1 + 1 / (top_value + 1)))"
proof -
  have h: "2 * unat (clamp_pwm_freq 10) \<le> unat (125000000 :: uint)"
    by (simp add: clamp_pwm_freq_def)
  show ?thesis using h setup_pwm_outputs_plan [OF h] by simp
qed

text \<open>
  Without that much clock the first subtraction wraps: at 15 Hz and a request of 10 Hz the
  divider-1 top is \<open>2^32 - 1\<close>, the divider becomes 65536 and top stays \<open>2^32 - 1\<close>.
\<close>

lemma ucast_all_ones: "(ucast (- 1 :: 32 word) :: 16 word) = 65535"
  by (simp add: word_eq_iff_unsigned [where ?'a = nat] unsigned_ucast_eq
      unsigned_minus_1_eq_mask mask_eq_exp_minus_1)

lemma setup_pwm_outputs_slow_clock:
  "setup_pwm_outputs 15 10 =
     \<lparr> plan_freq = 10, plan_clk_div = 65536, plan_top = 4294967295, pwm_out_top = 65535 \<rparr>"
  by (simp add: setup_pwm_outputs_def clamp_pwm_freq_def pwm_top_def PWM_TOP_MAX_def Let_def
      ucast_all_ones)


text \<open>
  Claim C5, as the code has it.  When the top value for divider 1 is at least \<open>2^16\<close>,
  the divider becomes \<open>top div 2^16 + 1\<close>, which is \<open>ceil ((top + 1) / 2^16)\<close>, and top
  is recomputed with that divider; it is \<open>ceil (top / 2^16)\<close> exactly when top is not a
  multiple of \<open>2^16\<close>.  Below \<open>2^16\<close> the divider stays 1 and top is kept.
\<close>

theorem setup_pwm_outputs_divider:
  "(let pwm_freq = clamp_pwm_freq cfg_pwm_freq;
        top1 = pwm_top sys_clock 1 pwm_freq;
        p = setup_pwm_outputs sys_clock cfg_pwm_freq
    in if 2 ^ 16 \<le> unat top1
       then unat (plan_clk_div p) = unat top1 div 2 ^ 16 + 1
          \<and> int (unat (plan_clk_div p)) = \<lceil>(real (unat top1) + 1) / 2 ^ 16\<rceil>
          \<and> (int (unat (plan_clk_div p)) = \<lceil>real (unat top1) / 2 ^ 16\<rceil>
                \<longleftrightarrow> \<not> 2 ^ 16 dvd unat top1)
          \<and> plan_top p = pwm_top sys_clock (plan_clk_div p) pwm_freq
       else plan_clk_div p = 1 \<and> plan_top p = top1)"
proof -
  define top1 where "top1 = pwm_top sys_clock 1 (clamp_pwm_freq cfg_pwm_freq)"
  define p where "p = setup_pwm_outputs sys_clock cfg_pwm_freq"
  show ?thesis
  proof (cases "2 ^ 16 \<le> unat top1")
    case False
    hence "\<not> PWM_TOP_MAX \<le> top1" by (simp add: word_le_nat_alt unat_PWM_TOP_MAX)
    thus ?thesis using False
      by (simp add: Let_def setup_pwm_outputs_def top1_def [symmetric])
  next
    case True
    hence ge: "PWM_TOP_MAX \<le> top1" by (simp add: word_le_nat_alt unat_PWM_TOP_MAX)
    have dv: "plan_clk_div p = top1 div PWM_TOP_MAX + 1"
      using ge by (simp add: p_def setup_pwm_outputs_def Let_def top1_def [symmetric])
    have tp: "plan_top p = pwm_top sys_clock (plan_clk_div p) (clamp_pwm_freq cfg_pwm_freq)"
      using ge by (simp add: p_def setup_pwm_outputs_def Let_def top1_def [symmetric])
    have d: "unat (plan_clk_div p) = unat top1 div 65536 + 1"
      by (simp add: dv unat_adjusted_div)
    have c1: "int (unat (plan_clk_div p)) = \<lceil>(real (unat top1) + 1) / 2 ^ 16\<rceil>"
      using ceiling_succ_div [of 65536 "unat top1"] d by simp
    have c2: "int (unat (plan_clk_div p)) = \<lceil>real (unat top1) / 2 ^ 16\<rceil>
                \<longleftrightarrow> \<not> 2 ^ 16 dvd unat top1"
      using ceiling_div_iff [of 65536 "unat top1"] d by (auto simp: add.commute)
    show ?thesis using True d c1 c2 tp
      by (simp add: Let_def top1_def [symmetric] p_def [symmetric])
  qed
qed


text \<open>
  At 131.074 MHz and 1 kHz the top value for divider 1 is exactly \<open>2^16\<close>: the code
  sets the divider to 2, and \<open>ceil (top / 2^16)\<close> is 1.
\<close>

theorem setup_pwm_outputs_divider_counterexample:
  "pwm_top 131074000 1 (clamp_pwm_freq 1000) = 65536 \<and>
   plan_clk_div (setup_pwm_outputs 131074000 1000) = 2 \<and>
   \<lceil>real (unat (pwm_top 131074000 1 (clamp_pwm_freq 1000))) / 2 ^ 16\<rceil> = 1 \<and>
   int (unat (plan_clk_div (setup_pwm_outputs 131074000 1000)))
     \<noteq> \<lceil>real (unat (pwm_top 131074000 1 (clamp_pwm_freq 1000))) / 2 ^ 16\<rceil>"
  by (simp add: setup_pwm_outputs_def clamp_pwm_freq_def pwm_top_def PWM_TOP_MAX_def Let_def)

section \<open>Properties of the duty driver\<close>

lemma unat_full_scale: "unat (ucast (top16 :: 16 word) + 1 :: uint) = unat top16 + 1"
proof -
  have lt: "unat top16 < 2 ^ 16" using unsigned_less [where 'a = nat, of top16] by simp
  hence "unat top16 < 2 ^ 32" by simp
  hence "take_bit 32 (unat top16) = unat top16" by (rule take_bit_nat_eq_self)
  hence "unat (ucast top16 :: uint) = unat top16"
    by (simp add: unsigned_ucast_eq)
  thus ?thesis using lt by (simp add: unat_word_ariths)
qed

lemma unat_f32_to_uint:
  assumes "0 \<le> q" "q < 65537"
  shows "int (unat (f32_to_uint q)) = \<lfloor>q\<rfloor>"
proof -
  have "0 \<le> \<lfloor>q\<rfloor>" "\<lfloor>q\<rfloor> < 2 ^ 32" using assms by (simp_all add: floor_less_iff)
  hence "uint (word_of_int \<lfloor>q\<rfloor> :: uint) = \<lfloor>q\<rfloor>"
    by (simp add: uint_word_of_int take_bit_int_eq_self)
  thus ?thesis using assms(1) by (simp add: f32_to_uint_def c_trunc_def)
qed


text \<open>
  Claim C2.  For an output in range and a finite duty, \<^verbatim>\<open>set_pwm_duty_cycle\<close> programs the
  pin of that output with: level \<open>top + 1\<close> for every duty of 100 or more; level 0 for every
  duty of 0 or less; for a duty in between, the binary32 value of
  \<^verbatim>\<open>duty * (pwm_out_top + 1) / 100\<close> truncated toward zero.  Every duty below 100 gets a
  level strictly below \<open>top + 1\<close>, and duty 50 gets exactly \<open>(top + 1) div 2\<close>.
\<close>

theorem set_pwm_duty_cycle_levels:
  assumes range: "out < OUTPUT_COUNT" and finite: "is_f32 duty"
  shows "\<exists>level.
           set_pwm_duty_cycle OUTPUT_COUNT output_gpio_pwm_map top16 out duty
             = Some (output_gpio_pwm_map out, level)
         \<and> (100 \<le> duty \<longrightarrow> unat level = unat top16 + 1)
         \<and> (duty \<le> 0 \<longrightarrow> level = 0)
         \<and> (0 < duty \<and> duty < 100 \<longrightarrow>
               int (unat level)
                 = c_trunc (f32_div (f32_mul duty (real (unat top16 + 1))) 100))
         \<and> (duty < 100 \<longrightarrow> unat level < unat top16 + 1)
         \<and> (duty = 50 \<longrightarrow> unat level = (unat top16 + 1) div 2)"
proof -
  define T where "T = unat top16 + 1"
  define q where "q = f32_div (f32_mul duty (real T)) 100"
  have "unat top16 < 2 ^ 16" using unsigned_less [where 'a = nat, of top16] by simp
  hence T: "1 \<le> T" "T \<le> 65536" by (simp_all add: T_def)
  have call: "set_pwm_duty_cycle OUTPUT_COUNT output_gpio_pwm_map top16 out duty
             = Some (output_gpio_pwm_map out, pwm_level top16 duty)"
    using range by (simp add: set_pwm_duty_cycle_def Let_def)
  have full: "100 \<le> duty \<longrightarrow> unat (pwm_level top16 duty) = unat top16 + 1"
    by (simp add: pwm_level_def unat_full_scale)
  have zero: "duty \<le> 0 \<longrightarrow> pwm_level top16 duty = 0"
    by (simp add: pwm_level_def)
  have mid: "int (unat (pwm_level top16 duty)) = c_trunc q \<and> unat (pwm_level top16 duty) < T"
    if "0 < duty" "duty < 100"
  proof -
    have q: "0 \<le> q" "q < real T"
      unfolding q_def using duty_below_full_scale [OF finite that T] by simp_all
    hence "q < 65537" using T(2) by simp
    hence u: "int (unat (f32_to_uint q)) = \<lfloor>q\<rfloor>" using q(1) by (intro unat_f32_to_uint)
    have "\<lfloor>q\<rfloor> < int T" using q(2) by (simp add: floor_less_iff)
    hence "unat (f32_to_uint q) < T" using u by linarith
    moreover have "pwm_level top16 duty = f32_to_uint q"
      using that by (simp add: pwm_level_def q_def T_def)
    ultimately show ?thesis using u q(1) by (simp add: c_trunc_def)
  qed
  have below: "duty < 100 \<longrightarrow> unat (pwm_level top16 duty) < T"
  proof
    assume lt: "duty < 100"
    show "unat (pwm_level top16 duty) < T"
    proof (cases "0 < duty")
      case True thus ?thesis using mid lt by simp
    next
      case False thus ?thesis using T(1) by (simp add: pwm_level_def)
    qed
  qed
  have half: "duty = 50 \<longrightarrow> unat (pwm_level top16 duty) = T div 2"
  proof
    assume fifty: "duty = 50"
    have "\<bar>int (50 * T)\<bar> < 2 ^ 24" using T(2) by simp
    hence "f32_round (of_int (int (50 * T))) = of_int (int (50 * T))" by (rule f32_round_of_int)
    hence m: "f32_mul duty (real T) = 50 * real T" by (simp add: f32_mul_def fifty)
    have "is_f32 (real T / 2)"
      unfolding is_f32_def using T(2)
      by (intro exI [of _ "int T"] exI [of _ "- 1"]) simp
    hence "f32_round (real T / 2) = real T / 2" by (rule f32_round_id)
    hence qv: "q = real T / 2" by (simp add: q_def f32_div_def m)
    have "int (unat (pwm_level top16 duty)) = c_trunc q" using mid fifty by simp
    also have "\<dots> = \<lfloor>real T / 2\<rfloor>" by (simp add: c_trunc_def qv)
    also have "\<dots> = int (T div 2)" using floor_divide_of_nat_eq [of T 2, where 'a = real] by simp
    finally have "int (unat (pwm_level top16 duty)) = int (T div 2)" .
    thus "unat (pwm_level top16 duty) = T div 2" by (simp only: of_nat_eq_iff)
  qed
  show ?thesis
    using call full zero mid below half
    unfolding q_def T_def by blast
qed

theorem set_pwm_duty_cycle_levels_witness:
  "(0 :: nat) < 16 \<and> is_f32 50
   \<and> set_pwm_duty_cycle 16 sample_gpio_pwm_map 999 0 50 = Some (sample_gpio_pwm_map 0, 500)
   \<and> set_pwm_duty_cycle 16 sample_gpio_pwm_map 999 0 100 = Some (sample_gpio_pwm_map 0, 1000)
   \<and> set_pwm_duty_cycle 16 sample_gpio_pwm_map 999 0 0 = Some (sample_gpio_pwm_map 0, 0)"
proof -
  have r: "(0 :: nat) < 16" by simp
  have f: "is_f32 50" using is_f32_of_int [of 50] by simp
  obtain level where l:
    "set_pwm_duty_cycle 16 sample_gpio_pwm_map 999 0 50 = Some (sample_gpio_pwm_map 0, level)"
    "unat level = (unat (999 :: 16 word) + 1) div 2"
    using set_pwm_duty_cycle_levels [OF r f, of sample_gpio_pwm_map 999] by auto
  have "level = of_nat (unat level)" by simp
  also have "\<dots> = 500" by (simp only: l(2)) simp
  finally have fifty: "set_pwm_duty_cycle 16 sample_gpio_pwm_map 999 0 50
                        = Some (sample_gpio_pwm_map 0, 500)"
    using l(1) by simp
  have rest: "set_pwm_duty_cycle 16 sample_gpio_pwm_map 999 0 100 = Some (sample_gpio_pwm_map 0, 1000)"
    "set_pwm_duty_cycle 16 sample_gpio_pwm_map 999 0 0 = Some (sample_gpio_pwm_map 0, 0)"
    by (simp_all add: set_pwm_duty_cycle_def pwm_level_def Let_def)
  show ?thesis using r f fifty rest by simp
qed

section \<open>Properties of the fade effect\<close>

subsection \<open>Seconds to microseconds\<close>

lemma seconds_to_usec_2: "seconds_to_usec 2 = 2000000"
  using f32_round_of_int [of 2000000] by (simp add: seconds_to_usec_def f32_mul_def c_trunc_def)

lemma seconds_to_usec_1: "seconds_to_usec 1 = 1000000"
  using f32_round_of_int [of 1000000] by (simp add: seconds_to_usec_def f32_mul_def c_trunc_def)

subsection \<open>The state machine\<close>

lemma effect_fade_idle:
  assumes "mode c = 0" "last_state c = 0"
  shows "effect_fade c t_now pwm 0 = (0, c)"
  using assms by (simp add: effect_fade_def Let_def)

lemma fade_run_idle:
  assumes "mode c = 0" "last_state c = 0" "\<forall>tick \<in> set ticks. snd (snd tick) = 0"
  shows "fade_run c ticks = (replicate (length ticks) 0, c)"
  using assms
proof (induction ticks)
  case Nil
  then show ?case by simp
next
  case (Cons tick ticks)
  obtain t_now pwm pwr where tick: "tick = (t_now, pwm, pwr)" by (cases tick) auto
  with Cons.prems have "pwr = 0" by simp
  with Cons tick show ?case by (simp add: effect_fade_idle)
qed

lemma parse_fresh:
  assumes "effect_fade_parse_args strncopy str_to_float calloc_ok args = Some c"
  shows "mode c = 0" "last_state c = 0" "start_t c = 0"
    "in_l c = seconds_to_usec (fade_in c)" "out_l c = seconds_to_usec (fade_out c)"
  using assms
  by (auto simp: effect_fade_parse_args_def Let_def split: option.splits if_splits prod.splits)


lemma fade_run_append:
  "fade_run c (xs @ ys) =
     (fst (fade_run c xs) @ fst (fade_run (snd (fade_run c xs)) ys),
      snd (fade_run (snd (fade_run c xs)) ys))"
  by (induction xs arbitrary: c) (auto simp: Let_def split: prod.splits)

lemma last_state_same: "last_state c = v \<Longrightarrow> c\<lparr> last_state := v \<rparr> = c"
  by simp

lemma fade_run_steady_on:
  assumes "mode c = 2" "last_state c = 1"
  shows "fade_run c (map (\<lambda>t. (t, pwm, 1)) ts) = (replicate (length ts) pwm, c)"
  using assms by (induction ts) (simp_all add: effect_fade_def Let_def last_state_same)

lemma fade_run_steady_off:
  assumes "mode c = 4" "last_state c = 0"
  shows "fade_run c (map (\<lambda>t. (t, pwm, 0)) ts) = (replicate (length ts) 0, c)"
  using assms by (induction ts) (simp_all add: effect_fade_def Let_def last_state_same)

text \<open>
  The two ramps in general: while power is unchanged and the elapsed time is below the
  fade time (itself below \<open>2^55\<close> microseconds, so that the 64-bit product does not
  overflow), the duty returned is \<open>pwm * elapsed div fade time\<close> going up and \<open>pwm\<close>
  less that going down, and the context is unchanged.
\<close>

lemma sdiv_of_nat:
  assumes "0 < b"
  shows "int a sdiv int b = int (a div b)"
proof -
  have "int a sdiv int b = sgn (int a) * sgn (int b) * (\<bar>int a\<bar> div \<bar>int b\<bar>)"
    by (simp only: signed_divide_int_def)
  also have "\<dots> = sgn (int a) * (int a div int b)" using assms by simp
  also have "\<dots> = int a div int b" by (cases "a = 0") simp_all
  finally show ?thesis by (simp only: zdiv_int)
qed

lemma sint_small:
  fixes w :: "64 word"
  assumes "unat w < 2 ^ 63"
  shows "sint w = int (unat w)"
proof -
  have u: "uint w = int (unat w)" by (rule uint_nat)
  have "int (unat w) < int (2 ^ 63)" using assms by (simp only: of_nat_less_iff)
  hence lt: "int (unat w) < 2 ^ 63" by simp
  have ge: "- (2 ^ 63) \<le> int (unat w)" by (rule order_trans [of _ 0]) simp_all
  have "signed_take_bit 63 (int (unat w)) = int (unat w)"
    using ge lt by (rule signed_take_bit_int_eq_self)
  moreover have "sint w = signed_take_bit 63 (uint w)" by (simp add: sint_uint)
  ultimately show ?thesis by (simp only: u)
qed

lemma ucast_small:
  assumes "n < 2 ^ 8"
  shows "(ucast (of_nat n :: 64 word) :: 8 word) = of_nat n"
proof -
  have "n < 2 ^ 64" using assms by (rule less_trans) simp
  hence "n mod 2 ^ 64 = n" by (rule mod_less)
  hence a: "unat (of_nat n :: 64 word) = n" by (simp add: unat_of_nat)
  have b: "take_bit 8 n = n" using assms by (rule take_bit_nat_eq_self)
  have "n mod 2 ^ 8 = n" using assms by (rule mod_less)
  hence c: "unat (of_nat n :: 8 word) = n" by (simp add: unat_of_nat)
  have "unat (ucast (of_nat n :: 64 word) :: 8 word) = take_bit 8 (unat (of_nat n :: 64 word))"
    by (simp add: unsigned_ucast_eq)
  hence "unat (ucast (of_nat n :: 64 word) :: 8 word) = unat (of_nat n :: 8 word)"
    by (simp only: a b c)
  thus ?thesis by (simp only: word_eq_iff_unsigned [where ?'a = nat])
qed

lemma ramp_value:
  fixes t_d l :: "64 word" and pwm :: "8 word"
  assumes td: "unat t_d < unat l" and l: "unat l < 2 ^ 55"
  shows "t_d <s l"
    and "(ucast (sdiv64 (ucast pwm * t_d) l) :: 8 word) = of_nat (unat pwm * unat t_d div unat l)"
    and "unat pwm * unat t_d div unat l \<le> unat pwm"
    and "sdiv64 (ucast pwm * t_d) l = of_nat (unat pwm * unat t_d div unat l)"
proof -
  have lpos: "0 < unat l" using td by simp
  have p8: "unat pwm < 2 ^ 8" using unsigned_less [where 'a = nat, of pwm] by simp
  hence "unat pwm < 2 ^ 64" by simp
  hence "take_bit 64 (unat pwm) = unat pwm" by (rule take_bit_nat_eq_self)
  hence up: "unat (ucast pwm :: 64 word) = unat pwm"
    by (simp add: unsigned_ucast_eq)
  have tdl: "unat t_d < 2 ^ 55" using td l by simp
  have "unat pwm * unat t_d < 2 ^ 8 * 2 ^ 55"
    using p8 tdl by (intro mult_strict_mono) simp_all
  hence prod: "unat pwm * unat t_d < 2 ^ 63" by simp
  hence "unat pwm * unat t_d < 2 ^ 64" by simp
  hence "unat pwm * unat t_d mod 2 ^ 64 = unat pwm * unat t_d" by (rule mod_less)
  hence um: "unat (ucast pwm * t_d :: 64 word) = unat pwm * unat t_d"
    by (simp add: unat_word_ariths up)
  have s1: "sint (ucast pwm * t_d :: 64 word) = int (unat pwm * unat t_d)"
    using sint_small [of "ucast pwm * t_d"] prod by (simp only: um)
  have "unat l < 2 ^ 63" using l by simp
  hence s2: "sint l = int (unat l)" by (rule sint_small)
  have "unat t_d < 2 ^ 63" using tdl by simp
  hence s3: "sint t_d = int (unat t_d)" by (rule sint_small)
  show "t_d <s l" unfolding word_sless_alt s2 s3 using td by (simp only: of_nat_less_iff)
  have "unat pwm * unat t_d \<le> unat pwm * unat l" using td by simp
  hence "unat pwm * unat t_d div unat l \<le> unat pwm * unat l div unat l" by (rule div_le_mono)
  thus le: "unat pwm * unat t_d div unat l \<le> unat pwm" using lpos by simp
  define n where "n = unat pwm * unat t_d div unat l"
  have n: "n < 2 ^ 8" using le p8 by (simp add: n_def)
  have "sdiv64 (ucast pwm * t_d) l = word_of_int (int n)"
    unfolding sdiv64_def s1 s2 sdiv_of_nat [OF lpos] n_def ..
  hence sd: "sdiv64 (ucast pwm * t_d) l = of_nat n" by simp
  thus "sdiv64 (ucast pwm * t_d) l = of_nat (unat pwm * unat t_d div unat l)"
    by (simp only: n_def)
  show "(ucast (sdiv64 (ucast pwm * t_d) l) :: 8 word)
      = of_nat (unat pwm * unat t_d div unat l)"
    unfolding sd using ucast_small [OF n] by (simp only: n_def)
qed

lemma effect_fade_ramp_up:
  assumes "mode c = 1" "last_state c = pwr"
    and "unat (t_now - start_t c) < unat (in_l c)" "unat (in_l c) < 2 ^ 55"
  shows "effect_fade c t_now pwm pwr
           = (of_nat (unat pwm * unat (t_now - start_t c) div unat (in_l c)), c)"
  using assms(1,2) ramp_value(1) [OF assms(3,4)] ramp_value(2) [OF assms(3,4), of pwm]
  by (simp add: effect_fade_def Let_def last_state_same)

lemma ucast_diff_small:
  fixes pwm :: "8 word"
  assumes "n \<le> unat pwm"
  shows "(ucast ((ucast pwm :: 64 word) - of_nat n) :: 8 word) = of_nat (unat pwm - n)"
proof -
  have p8: "unat pwm < 2 ^ 8" using unsigned_less [where 'a = nat, of pwm] by simp
  have "(ucast pwm :: 64 word) = of_nat (unat pwm)" by simp
  hence "(ucast pwm :: 64 word) - of_nat n = of_nat (unat pwm - n)"
    using assms by (simp only: of_nat_diff)
  moreover have "unat pwm - n < 2 ^ 8" using p8 by simp
  ultimately show ?thesis using ucast_small [of "unat pwm - n"] by simp
qed

lemma effect_fade_ramp_down:
  assumes "mode c = 3" "last_state c = pwr"
    and "unat (t_now - start_t c) < unat (out_l c)" "unat (out_l c) < 2 ^ 55"
  shows "effect_fade c t_now pwm pwr
           = (of_nat (unat pwm - unat pwm * unat (t_now - start_t c) div unat (out_l c)), c)"
proof -
  define n where "n = unat pwm * unat (t_now - start_t c) div unat (out_l c)"
  have r: "t_now - start_t c <s out_l c" "n \<le> unat pwm"
    "sdiv64 (ucast pwm * (t_now - start_t c)) (out_l c) = of_nat n"
    unfolding n_def
    using ramp_value(1) [OF assms(3,4)] ramp_value(3,4) [OF assms(3,4), of pwm] by simp_all
  have "(ucast (ucast pwm - sdiv64 (ucast pwm * (t_now - start_t c)) (out_l c)) :: 8 word)
           = of_nat (unat pwm - n)"
    unfolding r(3) using r(2) by (rule ucast_diff_small)
  thus ?thesis
    using assms(1,2) r(1) by (simp add: effect_fade_def Let_def last_state_same n_def)
qed

lemma fade_run_ramp_up:
  assumes c: "mode c = 1" "last_state c = 1" "start_t c = 0" "in_l c = 2000000"
    and ts: "\<forall>t \<in> set ts. t < 2000000"
  shows "fade_run c (map (\<lambda>t. (t, 80, 1)) ts)
           = (map (\<lambda>t. of_nat (80 * unat t div 2000000)) ts, c)"
  using ts
proof (induction ts)
  case Nil
  show ?case by simp
next
  case (Cons t ts)
  hence "t < 2000000" by simp
  hence "unat (t - start_t c) < unat (in_l c)" by (simp add: c word_less_nat_alt)
  moreover have "unat (in_l c) < 2 ^ 55" by (simp add: c)
  ultimately have "effect_fade c t 80 1
      = (of_nat (unat (80 :: 8 word) * unat (t - start_t c) div unat (in_l c)), c)"
    using c(1,2) by (intro effect_fade_ramp_up) simp_all
  hence "effect_fade c t 80 1 = (of_nat (80 * unat t div 2000000), c)" by (simp add: c)
  thus ?case using Cons by simp
qed

lemma fade_run_ramp_down:
  assumes c: "mode c = 3" "last_state c = 0" "start_t c = 2000000" "out_l c = 1000000"
    and ts: "\<forall>t \<in> set ts. 2000000 \<le> t \<and> t < 3000000"
  shows "fade_run c (map (\<lambda>t. (t, 80, 0)) ts)
           = (map (\<lambda>t. of_nat (80 - 80 * (unat t - 2000000) div 1000000)) ts, c)"
  using ts
proof (induction ts)
  case Nil
  show ?case by simp
next
  case (Cons t ts)
  hence t: "2000000 \<le> t" "t < 3000000" by simp_all
  have d': "unat (t - 2000000) = unat t - 2000000"
    using t(1) by (simp add: unat_sub)
  hence d: "unat (t - start_t c) = unat t - 2000000" by (simp add: c)
  have "unat t < 3000000" using t(2) by (simp add: word_less_nat_alt)
  hence "unat (t - start_t c) < unat (out_l c)" using d by (simp add: c)
  moreover have "unat (out_l c) < 2 ^ 55" by (simp add: c)
  ultimately have "effect_fade c t 80 0
      = (of_nat (unat (80 :: 8 word)
                 - unat (80 :: 8 word) * unat (t - start_t c) div unat (out_l c)), c)"
    using c(1,2) by (intro effect_fade_ramp_down) simp_all
  hence "effect_fade c t 80 0 = (of_nat (80 - 80 * (unat t - 2000000) div 1000000), c)"
    by (simp add: c d')
  thus ?case using Cons by simp
qed

text \<open>
  Claim C3.  A context created with fade-in 2.0 s and fade-out 1.0 s, target duty 80.  Power
  is seen on at the tick at t = 0 (the off-to-on edge, duty 0).  While power stays on,
  any tick before 2.0 s returns \<open>80 * t div 2000000\<close>, so the tick at 0.5 s returns 20;
  the tick at 2.0 s returns 80 and so does every further tick.  Power is seen off at a
  tick at 2.0 s (the on-to-off edge, duty 80).  While power stays off, any tick before
  3.0 s returns \<open>80 - 80 * (t - 2000000) div 1000000\<close>, so the tick at 2.5 s returns 40; the
  tick at 3.0 s returns 0 and so does every later tick, whatever its time.
\<close>

theorem fade_scenario:
  assumes created: "effect_fade_parse_args strncopy str_to_float calloc_ok args = Some c"
    and times: "fade_in c = 2" "fade_out c = 1"
    and rising: "\<forall>t \<in> set up1 \<union> set up2. t < 2000000"
    and falling: "\<forall>t \<in> set down1 \<union> set down2. 2000000 \<le> t \<and> t < 3000000"
  shows "fst (fade_run c
            ([(0, 80, 1)]
             @ map (\<lambda>t. (t, 80, 1)) (up1 @ [500000] @ up2)
             @ [(2000000, 80, 1)]
             @ map (\<lambda>t. (t, 80, 1)) steady
             @ [(2000000, 80, 0)]
             @ map (\<lambda>t. (t, 80, 0)) (down1 @ [2500000] @ down2)
             @ [(3000000, 80, 0)]
             @ map (\<lambda>t. (t, 80, 0)) later))
         = [0]
           @ map (\<lambda>t. of_nat (80 * unat t div 2000000)) up1 @ [20]
           @ map (\<lambda>t. of_nat (80 * unat t div 2000000)) up2
           @ [80]
           @ replicate (length steady) 80
           @ [80]
           @ map (\<lambda>t. of_nat (80 - 80 * (unat t - 2000000) div 1000000)) down1 @ [40]
           @ map (\<lambda>t. of_nat (80 - 80 * (unat t - 2000000) div 1000000)) down2
           @ [0]
           @ replicate (length later) 0"
proof -
  note fresh = parse_fresh [OF created]
  have l: "in_l c = 2000000" "out_l c = 1000000"
    using fresh(4,5) times by (simp_all add: seconds_to_usec_2 seconds_to_usec_1)
  define c1 where "c1 = c\<lparr> start_t := 0, mode := 1, last_state := 1 \<rparr>"
  define c2 where "c2 = c1\<lparr> mode := 2, last_state := 1 \<rparr>"
  define c3 where "c3 = c2\<lparr> start_t := 2000000, mode := 3, last_state := 0 \<rparr>"
  define c4 where "c4 = c3\<lparr> mode := 4, last_state := 0 \<rparr>"
  have r0: "fade_run c [(0, 80, 1)] = ([0], c1)"
    using fresh(2) by (simp add: effect_fade_def c1_def)
  have "\<forall>t \<in> set (up1 @ [500000] @ up2). t < 2000000" using rising by auto
  hence r1: "fade_run c1 (map (\<lambda>t. (t, 80, 1)) (up1 @ [500000] @ up2))
      = (map (\<lambda>t. of_nat (80 * unat t div 2000000)) (up1 @ [500000] @ up2), c1)"
    by (intro fade_run_ramp_up) (simp_all add: c1_def l)
  have r2: "fade_run c1 [(2000000, 80, 1)] = ([80], c2)"
    by (simp add: effect_fade_def Let_def c1_def c2_def l word_sless_alt)
  have r3: "fade_run c2 (map (\<lambda>t. (t, 80, 1)) steady) = (replicate (length steady) 80, c2)"
    by (rule fade_run_steady_on) (simp_all add: c2_def)
  have r4: "fade_run c2 [(2000000, 80, 0)] = ([80], c3)"
    by (simp add: effect_fade_def c2_def c3_def)
  have "\<forall>t \<in> set (down1 @ [2500000] @ down2). 2000000 \<le> t \<and> t < 3000000"
    using falling by auto
  hence r5: "fade_run c3 (map (\<lambda>t. (t, 80, 0)) (down1 @ [2500000] @ down2))
      = (map (\<lambda>t. of_nat (80 - 80 * (unat t - 2000000) div 1000000))
           (down1 @ [2500000] @ down2), c3)"
    by (intro fade_run_ramp_down) (simp_all add: c3_def c2_def c1_def l)
  have r6: "fade_run c3 [(3000000, 80, 0)] = ([0], c4)"
    by (simp add: effect_fade_def Let_def c3_def c4_def c2_def c1_def l word_sless_alt)
  have r7: "fade_run c4 (map (\<lambda>t. (t, 80, 0)) later) = (replicate (length later) 0, c4)"
    by (rule fade_run_steady_off) (simp_all add: c4_def)
  have v: "(of_nat (80 * unat (500000 :: 64 word) div 2000000) :: 8 word) = 20"
    "(of_nat (80 - 80 * (unat (2500000 :: 64 word) - 2000000) div 1000000) :: 8 word) = 40"
    by simp_all
  have "fst (fade_run c
            ([(0, 80, 1)]
             @ map (\<lambda>t. (t, 80, 1)) (up1 @ [500000] @ up2)
             @ [(2000000, 80, 1)]
             @ map (\<lambda>t. (t, 80, 1)) steady
             @ [(2000000, 80, 0)]
             @ map (\<lambda>t. (t, 80, 0)) (down1 @ [2500000] @ down2)
             @ [(3000000, 80, 0)]
             @ map (\<lambda>t. (t, 80, 0)) later))
         = [0]
           @ map (\<lambda>t. of_nat (80 * unat t div 2000000)) (up1 @ [500000] @ up2)
           @ [80]
           @ replicate (length steady) 80
           @ [80]
           @ map (\<lambda>t. of_nat (80 - 80 * (unat t - 2000000) div 1000000))
               (down1 @ [2500000] @ down2)
           @ [0]
           @ replicate (length later) 0"
    by (simp only: fade_run_append r0 r1 r2 r3 r4 r5 r6 r7 fst_conv snd_conv)
  thus ?thesis by (simp only: map_append list.map v append_assoc)
qed

theorem fade_scenario_witness:
  "effect_fade_parse_args sample_strncopy sample_str_to_float True (Some ''2.0,1.0'')
     = Some \<lparr> fade_in = 2, fade_out = 1, in_l = 2000000, out_l = 1000000,
              last_state = 0, mode = 0, start_t = 0 \<rparr>
   \<and> fst (fade_run \<lparr> fade_in = 2, fade_out = 1, in_l = 2000000, out_l = 1000000,
                       last_state = 0, mode = 0, start_t = 0 \<rparr>
            ([(0, 80, 1)]
             @ map (\<lambda>t. (t, 80, 1)) ([250000] @ [500000] @ [1000000])
             @ [(2000000, 80, 1)]
             @ map (\<lambda>t. (t, 80, 1)) [2000000]
             @ [(2000000, 80, 0)]
             @ map (\<lambda>t. (t, 80, 0)) ([2250000] @ [2500000] @ [2750000])
             @ [(3000000, 80, 0)]
             @ map (\<lambda>t. (t, 80, 0)) [3010000, 3020000]))
         = [0, 10, 20, 40, 80, 80, 80, 60, 40, 20, 0, 0, 0]"
proof -
  have created: "effect_fade_parse_args sample_strncopy sample_str_to_float True (Some ''2.0,1.0'')
     = Some \<lparr> fade_in = 2, fade_out = 1, in_l = 2000000, out_l = 1000000,
              last_state = 0, mode = 0, start_t = 0 \<rparr>"
    by (simp add: effect_fade_parse_args_def parse_fade_times_def strtok_r_def Let_def
        sample_strncopy_def sample_str_to_float_def seconds_to_usec_2 seconds_to_usec_1)
  have rising: "\<forall>t \<in> set [250000] \<union> set [1000000 :: 64 word]. t < 2000000" by simp
  have falling: "\<forall>t \<in> set [2250000] \<union> set [2750000 :: 64 word]. 2000000 \<le> t \<and> t < 3000000"
    by simp
  show ?thesis
    using created
      fade_scenario [OF created _ _ rising falling, of "[2000000]" "[3010000, 3020000]"]
    by (simp del: fade_run.simps)
qed

text \<open>
  Claim C10.  A context as \<^verbatim>\<open>effect_fade_parse_args\<close> returns it is in mode 0 with last
  observed power 0; as long as every tick commands power off, every tick returns 0,
  whatever the time and the configured duty passed in, and the context is unchanged (so it
  stays in mode 0).
\<close>

theorem fade_idle_until_power_on:
  assumes created: "effect_fade_parse_args strncopy str_to_float calloc_ok args = Some c"
    and off: "\<forall>tick \<in> set ticks. snd (snd tick) = 0"
  shows "mode c = 0 \<and> last_state c = 0
       \<and> fade_run c ticks = (replicate (length ticks) 0, c)"
  using parse_fresh(1,2) [OF created] fade_run_idle [OF parse_fresh(1,2) [OF created] off]
  by simp

theorem fade_idle_until_power_on_witness:
  "effect_fade_parse_args sample_strncopy sample_str_to_float True (Some ''2.0,1.0'')
     = Some \<lparr> fade_in = 2, fade_out = 1, in_l = 2000000, out_l = 1000000,
              last_state = 0, mode = 0, start_t = 0 \<rparr>
   \<and> fade_run \<lparr> fade_in = 2, fade_out = 1, in_l = 2000000, out_l = 1000000,
                  last_state = 0, mode = 0, start_t = 0 \<rparr>
        [(0, 80, 0), (10000, 80, 0), (20000, 55, 0)]
       = ([0, 0, 0], \<lparr> fade_in = 2, fade_out = 1, in_l = 2000000, out_l = 1000000,
                       last_state = 0, mode = 0, start_t = 0 \<rparr>)"
proof -
  have created: "effect_fade_parse_args sample_strncopy sample_str_to_float True (Some ''2.0,1.0'')
     = Some \<lparr> fade_in = 2, fade_out = 1, in_l = 2000000, out_l = 1000000,
              last_state = 0, mode = 0, start_t = 0 \<rparr>"
    by (simp add: effect_fade_parse_args_def parse_fade_times_def strtok_r_def Let_def
        sample_strncopy_def sample_str_to_float_def seconds_to_usec_2 seconds_to_usec_1)
  have off: "\<forall>tick \<in> set [(0, 80, 0), (10000, 80, 0), (20000 :: 64 word, 55 :: 8 word, 0 :: 8 word)].
               snd (snd tick) = 0"
    by simp
  show ?thesis
    using created fade_idle_until_power_on [OF created off] by simp
qed

subsection \<open>The argument parser\<close>

lemma strtok_r_empty: "strtok_r [] delim = None"
  by (simp add: strtok_r_def)

lemma strtok_r_token:
  assumes "tok \<noteq> []" "CHR '','' \<notin> set tok"
  shows "strtok_r (tok @ CHR '','' # rest) '','' = Some (tok, rest)"
    and "strtok_r tok '','' = Some (tok, [])"
proof -
  obtain x xs where tok: "tok = x # xs" using assms(1) by (cases tok) auto
  have x: "x \<noteq> CHR '',''" using assms(2) tok by auto
  have all: "\<forall>c \<in> set tok. c \<notin> set '',''" using assms(2) by auto
  have d1: "dropWhile (\<lambda>c. c \<in> set '','') (tok @ CHR '','' # rest) = tok @ CHR '','' # rest"
    using x by (simp add: tok)
  have d2: "dropWhile (\<lambda>c. c \<in> set '','') tok = tok" using x by (simp add: tok)
  have t1: "takeWhile (\<lambda>c. c \<notin> set '','') (tok @ CHR '','' # rest) = tok"
    using all by (simp add: takeWhile_append2)
  have r1: "dropWhile (\<lambda>c. c \<notin> set '','') (tok @ CHR '','' # rest) = CHR '','' # rest"
    using all by (simp add: dropWhile_append2)
  have t2: "takeWhile (\<lambda>c. c \<notin> set '','') tok = tok" using all by (simp add: takeWhile_eq_all_conv)
  have r2: "dropWhile (\<lambda>c. c \<notin> set '','') tok = []" using all by simp
  show "strtok_r (tok @ CHR '','' # rest) '','' = Some (tok, rest)"
    unfolding strtok_r_def d1 Let_def t1 r1 using assms(1) by simp
  show "strtok_r tok '','' = Some (tok, [])"
    unfolding strtok_r_def d2 Let_def t2 r2 using assms(1) by simp
qed


text \<open>
  Claim C4, as the code has it.  With its arguments given and memory available the parser
  always returns a context, whose two times are those of \<open>parse_fade_times\<close> on the working
  copy.  An empty copy gives 1.0 for both.  A single token sets the fade-in time when it
  parses to a number that is not negative, and leaves 1.0 otherwise.  Of two tokens, the
  second is looked at only when the first one parses: a first token that does not parse
  leaves both times at 1.0; a first token that parses to a negative number leaves fade-in at
  1.0 and the second token is still read; a second token that does not parse, or is
  negative, leaves fade-out at 1.0.
\<close>

theorem effect_fade_parse_args_tokens:
  "(\<exists>c. effect_fade_parse_args strncopy str_to_float True (Some args) = Some c
        \<and> (fade_in c, fade_out c) = parse_fade_times str_to_float (strncopy args 64))
   \<and> parse_fade_times str_to_float '''' = (1, 1)
   \<and> (tok1 \<noteq> [] \<and> CHR '','' \<notin> set tok1 \<longrightarrow>
        parse_fade_times str_to_float tok1 =
          (case str_to_float tok1 of
             None \<Rightarrow> (1, 1)
           | Some arg1 \<Rightarrow> (if 0 \<le> arg1 then arg1 else 1, 1)))
   \<and> (tok1 \<noteq> [] \<and> CHR '','' \<notin> set tok1 \<and> tok2 \<noteq> [] \<and> CHR '','' \<notin> set tok2 \<longrightarrow>
        parse_fade_times str_to_float (tok1 @ '','' @ tok2) =
          (case str_to_float tok1 of
             None \<Rightarrow> (1, 1)
           | Some arg1 \<Rightarrow>
               (if 0 \<le> arg1 then arg1 else 1,
                case str_to_float tok2 of
                  None \<Rightarrow> 1
                | Some arg2 \<Rightarrow> if 0 \<le> arg2 then arg2 else 1)))"
proof (intro conjI impI)
  show "\<exists>c. effect_fade_parse_args strncopy str_to_float True (Some args) = Some c
        \<and> (fade_in c, fade_out c) = parse_fade_times str_to_float (strncopy args 64)"
    by (simp add: effect_fade_parse_args_def Let_def split: prod.splits)
  show "parse_fade_times str_to_float '''' = (1, 1)"
    by (simp add: parse_fade_times_def strtok_r_empty)
next
  assume "tok1 \<noteq> [] \<and> CHR '','' \<notin> set tok1"
  hence "strtok_r tok1 '','' = Some (tok1, [])" by (simp add: strtok_r_token(2))
  thus "parse_fade_times str_to_float tok1 =
          (case str_to_float tok1 of
             None \<Rightarrow> (1, 1)
           | Some arg1 \<Rightarrow> (if 0 \<le> arg1 then arg1 else 1, 1))"
    by (simp add: parse_fade_times_def strtok_r_empty Let_def split: option.splits)
next
  assume a: "tok1 \<noteq> [] \<and> CHR '','' \<notin> set tok1 \<and> tok2 \<noteq> [] \<and> CHR '','' \<notin> set tok2"
  hence "strtok_r (tok1 @ '','' @ tok2) '','' = Some (tok1, tok2)"
    using strtok_r_token(1) [of tok1 tok2] by simp
  moreover have "strtok_r tok2 '','' = Some (tok2, [])" using a by (simp add: strtok_r_token(2))
  ultimately show "parse_fade_times str_to_float (tok1 @ '','' @ tok2) =
          (case str_to_float tok1 of
             None \<Rightarrow> (1, 1)
           | Some arg1 \<Rightarrow>
               (if 0 \<le> arg1 then arg1 else 1,
                case str_to_float tok2 of
                  None \<Rightarrow> 1
                | Some arg2 \<Rightarrow> if 0 \<le> arg2 then arg2 else 1))"
    by (simp add: parse_fade_times_def Let_def split: option.splits)
qed

theorem effect_fade_parse_args_tokens_witness:
  "(\<exists>c. effect_fade_parse_args sample_strncopy sample_str_to_float True (Some ''-3,2.5'') = Some c
        \<and> (fade_in c, fade_out c) = parse_fade_times sample_str_to_float (sample_strncopy ''-3,2.5'' 64))
   \<and> parse_fade_times sample_str_to_float '''' = (1, 1)
   \<and> parse_fade_times sample_str_to_float ''-3'' = (1, 1)
   \<and> parse_fade_times sample_str_to_float (''-3'' @ '','' @ ''2.5'') = (1, 5 / 2)"
  using effect_fade_parse_args_tokens [of sample_strncopy sample_str_to_float "''-3,2.5''" "''-3''" "''2.5''"]
  by (simp add: sample_str_to_float_def)

text \<open>
  The claim as stated fails where the first token is malformed: in \<^verbatim>\<open>"abc,2.5"\<close> the
  second token parses to 2.5, and fade-out stays 1.0.
\<close>

theorem effect_fade_parse_args_tokens_counterexample:
  "sample_str_to_float ''abc'' = None
   \<and> sample_str_to_float ''2.5'' = Some (5 / 2)
   \<and> effect_fade_parse_args sample_strncopy sample_str_to_float True (Some ''abc,2.5'')
       = Some \<lparr> fade_in = 1, fade_out = 1, in_l = 1000000, out_l = 1000000,
                last_state = 0, mode = 0, start_t = 0 \<rparr>"
  by (simp add: effect_fade_parse_args_def parse_fade_times_def strtok_r_def
      sample_str_to_float_def sample_strncopy_def Let_def seconds_to_usec_1)


lemma parse_examples:
  "parse_fade_times sample_str_to_float '''' = (1, 1)"
  "parse_fade_times sample_str_to_float ''-3,2.5'' = (1, 5 / 2)"
  "parse_fade_times sample_str_to_float ''2.5,-3'' = (5 / 2, 1)"
  "parse_fade_times sample_str_to_float ''2.5,abc'' = (5 / 2, 1)"
  "parse_fade_times sample_str_to_float ''abc,2.5'' = (1, 1)"
  "parse_fade_times sample_str_to_float '',2.5'' = (5 / 2, 1)"
  by (simp_all add: parse_fade_times_def strtok_r_def sample_str_to_float_def Let_def)

section \<open>Properties of the logger\<close>

subsection \<open>Decimal fields and the time stamp\<close>

lemma dec_nonempty: "dec n \<noteq> []"
  by (subst dec.simps) simp

lemma length_dec_le:
  assumes "n < 10 ^ k" "0 < k"
  shows "length (dec n) \<le> k"
  using assms
proof (induction k arbitrary: n)
  case 0
  then show ?case by simp
next
  case (Suc k)
  show ?case
  proof (cases "n < 10")
    case True
    then show ?thesis by (subst dec.simps) simp
  next
    case False
    hence k: "0 < k" using Suc.prems(1) by (cases k) auto
    have "n div 10 < 10 ^ k" using Suc.prems(1) by (simp add: less_mult_imp_div_less mult.commute)
    hence "length (dec (n div 10)) \<le> k" using k by (rule Suc.IH)
    thus ?thesis using False by (subst dec.simps) simp
  qed
qed

lemma length_seconds_field:
  "length (seconds_field t) = max 6 (length (dec (unat (t div 1000000))))"
  by (simp add: seconds_field_def pad_left_def)

lemma length_seconds_field_le: "length (seconds_field t) \<le> 14"
proof -
  have "unat t < 2 ^ 64" using unsigned_less [of t] by simp
  hence "unat (t div 1000000) < 10 ^ 14" by (simp add: unat_div)
  hence "length (dec (unat (t div 1000000))) \<le> 14" by (rule length_dec_le) simp
  thus ?thesis by (simp add: length_seconds_field)
qed

lemma length_microseconds_field: "length (microseconds_field t) = 6"
proof -
  have "unat (t mod 1000000) < 10 ^ 6" by (simp add: unat_mod)
  hence "length (dec (unat (t mod 1000000))) \<le> 6" by (rule length_dec_le) simp
  thus ?thesis by (simp add: microseconds_field_def pad_left_def)
qed

lemma tstamp_untruncated:
  assumes "core_num < 10"
  shows "tstamp t core_num =
           ''['' @ seconds_field t @ ''.'' @ microseconds_field t @ '']['' @ dec core_num @ '']''"
proof -
  have "length (dec core_num) \<le> 1" using assms length_dec_le [of core_num 1] by simp
  thus ?thesis
    using length_seconds_field_le [of t] length_microseconds_field [of t]
    by (simp add: tstamp_def snprintf_def)
qed

lemma replicate_numeral: "replicate (numeral k) x = x # replicate (pred_numeral k) x"
  by (simp add: numeral_eq_Suc)


lemma digit_char_in: "d < 10 \<Longrightarrow> digit_char d \<in> set ''0123456789''"
proof -
  assume "d < 10"
  hence "d \<in> {0,1,2,3,4,5,6,7,8,9}" by auto
  thus ?thesis by (auto simp: digit_char_def)
qed

lemma set_dec: "set (dec n) \<subseteq> set ''0123456789''"
proof (induction n rule: dec.induct)
  case (1 n)
  show ?case
  proof (cases "n < 10")
    case True
    thus ?thesis using digit_char_in [of n] by (subst dec.simps) simp
  next
    case False
    have "n mod 10 < 10" by simp
    hence "digit_char (n mod 10) \<in> set ''0123456789''" by (rule digit_char_in)
    thus ?thesis using False 1 by (subst dec.simps) simp
  qed
qed

lemma NUL_notin_dec: "CHR 0x00 \<notin> set (dec n)"
  using set_dec [of n] by auto

lemma NUL_notin_strip: "CHR 0x00 \<notin> set s \<Longrightarrow> CHR 0x00 \<notin> set (strip_newline s)"
  by (auto simp: strip_newline_def dest: in_set_butlastD)

lemma tstamp_padded:
  assumes "core_num < 10"
  shows "tstamp t core_num =
           ''['' @ replicate (6 - length (dec (unat (t div 1000000)))) CHR '' ''
                @ dec (unat (t div 1000000))
           @ ''.'' @ replicate (6 - length (dec (unat (t mod 1000000)))) CHR ''0''
                @ dec (unat (t mod 1000000))
           @ '']['' @ dec core_num @ '']''"
  using tstamp_untruncated [OF assms, of t]
  by (simp add: seconds_field_def microseconds_field_def pad_left_def)

lemma NUL_notin_tstamp: "CHR 0x00 \<notin> set (tstamp t core_num)"
proof -
  have "set (tstamp t core_num) \<subseteq>
          set (''['' @ seconds_field t @ ''.'' @ microseconds_field t @ '']['' @ dec core_num @ '']'')"
    unfolding tstamp_def snprintf_def by (rule set_take_subset)
  moreover have "CHR 0x00 \<notin> set (seconds_field t)" "CHR 0x00 \<notin> set (microseconds_field t)"
    using NUL_notin_dec by (auto simp: seconds_field_def microseconds_field_def pad_left_def)
  ultimately show ?thesis using NUL_notin_dec [of core_num] by auto
qed


lemma sample_tstamp: "tstamp 1500000 0 = ''[     1.500000][0]''"
  by (simp add: tstamp_def snprintf_def seconds_field_def microseconds_field_def pad_left_def
      dec.simps digit_char_def replicate_numeral)

lemma sample_log_msg:
  "log_msg sample_log_state sample_log_env 3 (''hi'' @ [CHR 0x0A]) =
     [Printf (''[     1.500000][0] hi'' @ [CHR 0x0A]),
      Mutex_enter_timeout_us 100 True,
      U8_ringbuffer_add (''[     1.500000][0] hi'' @ [CHR 0x00]) 22 True,
      Update_persistent_memory_crc,
      Mutex_exit,
      Syslog_msg 3 ''hi'']"
  by (simp add: log_msg_def log_console_def log_remote_def log_slow_def Let_def
      sample_log_state_def sample_log_env_def sample_tstamp strip_newline_def snprintf_def
      LOG_MAX_MSG_LEN_def)


subsection \<open>The wire format\<close>

text \<open>
  Claim C6, as the code has it.  When the priority is within the console threshold and the
  message buffer is allocated, the call first prints the line
  \<^verbatim>\<open>[<seconds>.<microseconds>][<core>] <message>\<close> and a newline: the seconds are
  right-aligned, padded on the left with spaces to at least 6 characters (more from
  \<open>10^6\<close> s on), the microseconds are zero-padded to exactly 6, and the message has lost
  one final newline.  If the second buffer is allocated and the lock obtained, the record
  handed to the ring buffer is the same line without the newline, cut to 254 characters,
  with a terminating NUL (its only NUL), and the length passed counts that NUL.
\<close>

theorem log_line_wire_format:
  assumes console: "priority \<le> global_log_level st"
    and mem: "buf_malloc env"
    and cores: "core env < 10"
  shows "(let secs = dec (unat (t_stamp env div 1000000));
              usecs = dec (unat (t_stamp env mod 1000000));
              stamp = ''['' @ replicate (6 - length secs) CHR '' '' @ secs
                      @ ''.'' @ replicate (6 - length usecs) CHR ''0'' @ usecs
                      @ '']['' @ dec (core env) @ '']'';
              msg = strip_newline (take 255 message);
              line = stamp @ '' '' @ msg;
              stored = take 254 line @ [CHR 0x00]
          in log_msg st env priority message =
               Printf (line @ [CHR 0x0A]) #
               (if rbuf_malloc env then
                  Mutex_enter_timeout_us 100 (mutex_acquired env) #
                  (if mutex_acquired env
                   then [U8_ringbuffer_add stored (length stored) True,
                         Update_persistent_memory_crc, Mutex_exit]
                   else [Printf (stamp @ '' mutex timeout: FAILED to access log rinbuffer''
                                   @ [CHR 0x0A])])
                else [])
               @ log_remote st priority msg @ log_slow st env
            \<and> length (replicate (6 - length secs) CHR '' '' @ secs) = max 6 (length secs)
            \<and> length (replicate (6 - length usecs) CHR ''0'' @ usecs) = 6
            \<and> last stored = CHR 0x00
            \<and> (CHR 0x00 \<notin> set message \<longrightarrow> CHR 0x00 \<notin> set (butlast stored))
            \<and> (length message \<le> 255 \<longrightarrow>
                 msg = (if message \<noteq> [] \<and> last message = CHR 0x0A
                        then butlast message else message)))"
proof -
  define msg where "msg = strip_newline (take 255 message)"
  define ts where "ts = tstamp (t_stamp env) (core env)"
  define stored where "stored = take 254 (ts @ '' '' @ msg) @ [CHR 0x00]"
  have A: "log_msg st env priority message =
             Printf ((ts @ '' '' @ msg) @ [CHR 0x0A]) #
             (if rbuf_malloc env then
                Mutex_enter_timeout_us 100 (mutex_acquired env) #
                (if mutex_acquired env
                 then [U8_ringbuffer_add stored (length stored) True,
                       Update_persistent_memory_crc, Mutex_exit]
                 else [Printf (ts @ '' mutex timeout: FAILED to access log rinbuffer''
                                 @ [CHR 0x0A])])
              else [])
             @ log_remote st priority msg @ log_slow st env"
    using console mem
    by (simp add: log_msg_def log_console_def Let_def msg_def ts_def stored_def snprintf_def
        LOG_MAX_MSG_LEN_def)
  have B: "length (replicate (6 - length (dec (unat (t_stamp env div 1000000)))) CHR '' ''
                 @ dec (unat (t_stamp env div 1000000)))
           = max 6 (length (dec (unat (t_stamp env div 1000000))))"
    by auto
  have C: "length (replicate (6 - length (dec (unat (t_stamp env mod 1000000)))) CHR ''0''
                 @ dec (unat (t_stamp env mod 1000000))) = 6"
    using length_microseconds_field [of "t_stamp env"]
    by (simp add: microseconds_field_def pad_left_def)
  have D: "last stored = CHR 0x00" by (simp add: stored_def)
  have E: "CHR 0x00 \<notin> set message \<longrightarrow> CHR 0x00 \<notin> set (butlast stored)"
  proof
    assume "CHR 0x00 \<notin> set message"
    hence "CHR 0x00 \<notin> set (take 255 message)" by (auto dest: in_set_takeD)
    hence "CHR 0x00 \<notin> set msg" unfolding msg_def by (rule NUL_notin_strip)
    hence "CHR 0x00 \<notin> set (ts @ '' '' @ msg)"
      using NUL_notin_tstamp [of "t_stamp env" "core env"] by (simp add: ts_def)
    hence "CHR 0x00 \<notin> set (take 254 (ts @ '' '' @ msg))" by (blast dest: in_set_takeD)
    moreover have "butlast stored = take 254 (ts @ '' '' @ msg)"
      unfolding stored_def by (rule butlast_snoc)
    ultimately show "CHR 0x00 \<notin> set (butlast stored)" by simp
  qed
  have F: "length message \<le> 255 \<longrightarrow>
      msg = (if message \<noteq> [] \<and> last message = CHR 0x0A then butlast message else message)"
    by (simp add: msg_def strip_newline_def)
  show ?thesis
    unfolding Let_def tstamp_padded [OF cores, of "t_stamp env", symmetric]
      msg_def [symmetric] ts_def [symmetric] stored_def [symmetric]
    using A B C D E F by blast
qed

theorem log_line_wire_format_witness:
  "(3 :: int) \<le> global_log_level sample_log_state
   \<and> buf_malloc sample_log_env
   \<and> core sample_log_env < 10
   \<and> log_msg sample_log_state sample_log_env 3 (''hi'' @ [CHR 0x0A]) =
       [Printf (''[     1.500000][0] hi'' @ [CHR 0x0A]),
        Mutex_enter_timeout_us 100 True,
        U8_ringbuffer_add (''[     1.500000][0] hi'' @ [CHR 0x00]) 22 True,
        Update_persistent_memory_crc,
        Mutex_exit,
        Syslog_msg 3 ''hi'']"
proof -
  have h: "(3 :: int) \<le> global_log_level sample_log_state" "buf_malloc sample_log_env"
    "core sample_log_env < 10"
    by (simp_all add: sample_log_state_def sample_log_env_def)
  show ?thesis
    using h log_line_wire_format [OF h, of "''hi'' @ [CHR 0x0A]"] sample_log_msg by simp
qed


text \<open>
  The seconds field is not right-padded and not of a fixed width: at 1.5 s it is five
  spaces and the digit, where digits followed by spaces are what right-padding gives; at
  \<open>10^6\<close> s it is 7 characters wide.
\<close>

theorem log_line_wire_format_counterexample:
  "seconds_field 1500000 = ''     1''
   \<and> spec_seconds_field 6 1500000 = ''1     ''
   \<and> seconds_field 1500000 \<noteq> spec_seconds_field 6 1500000
   \<and> length (seconds_field 1500000) = 6
   \<and> length (seconds_field 1000000000000) = 7
   \<and> hd (log_msg sample_log_state sample_log_env 3 (''hi'' @ [CHR 0x0A]))
       = Printf (''[     1.500000][0] hi'' @ [CHR 0x0A])"
  using sample_log_msg
  by (simp add: seconds_field_def spec_seconds_field_def pad_left_def Let_def dec.simps
        digit_char_def replicate_numeral)

subsection \<open>Lock timeout\<close>

lemma lock_attempt_remote [simp]: "Mutex_enter_timeout_us us ok \<notin> set (log_remote st priority buf)"
  by (simp add: log_remote_def)

lemma lock_attempt_slow [simp]: "Mutex_enter_timeout_us us ok \<notin> set (log_slow st env)"
  by (simp add: log_slow_def)

lemma filter_remote [simp]:
  "filter touches_store (log_remote st priority buf) = []"
  "filter is_lock_attempt (log_remote st priority buf) = []"
  "filter is_syslog (log_remote st priority buf) = log_remote st priority buf"
  by (simp_all add: log_remote_def)

lemma filter_slow [simp]:
  "filter touches_store (log_slow st env) = []"
  "filter is_lock_attempt (log_slow st env) = []"
  "filter is_syslog (log_slow st env) = []"
  by (simp_all add: log_slow_def)

lemma filter_console_syslog [simp]: "filter is_syslog (log_console st env priority buf) = []"
  by (simp add: log_console_def Let_def)


text \<open>
  Claim C7.  A call whose attempt on the mutex fails made that attempt with a timeout of
  100 microseconds, after printing the log line (the same line a call that obtains the
  lock prints first); it then prints the failure notice, hands nothing to the ring buffer
  and does not update the checksum, makes no second attempt, and goes on to the remote
  forward and the slow-call diagnostic as any other call.
\<close>

theorem log_msg_lock_timeout:
  assumes timeout: "Mutex_enter_timeout_us us False \<in> set (log_msg st env priority message)"
  shows "(let msg = strip_newline (take 255 message);
              ts = tstamp (t_stamp env) (core env)
          in us = 100
           \<and> log_msg st env priority message =
               [Printf (ts @ '' '' @ msg @ [CHR 0x0A]),
                Mutex_enter_timeout_us 100 False,
                Printf (ts @ '' mutex timeout: FAILED to access log rinbuffer'' @ [CHR 0x0A])]
               @ log_remote st priority msg @ log_slow st env
           \<and> hd (log_msg st (env\<lparr> mutex_acquired := True \<rparr>) priority message)
               = Printf (ts @ '' '' @ msg @ [CHR 0x0A])
           \<and> filter touches_store (log_msg st env priority message) = []
           \<and> length (filter is_lock_attempt (log_msg st env priority message)) = 1)"
proof -
  define msg where "msg = strip_newline (take 255 message)"
  have pass: "\<not> (priority > global_log_level st \<and> priority > global_syslog_level st)"
    and mem: "buf_malloc env"
    using timeout by (auto simp: log_msg_def split: if_splits)
  hence trace: "log_msg st env' priority message =
      log_console st env' priority msg @ log_remote st priority msg @ log_slow st env'"
    if "buf_malloc env'" for env'
    using that by (auto simp: log_msg_def Let_def msg_def snprintf_def LOG_MAX_MSG_LEN_def)
  have "Mutex_enter_timeout_us us False \<in> set (log_console st env priority msg)"
    using timeout trace [OF mem] by simp
  hence c: "priority \<le> global_log_level st" "rbuf_malloc env" "\<not> mutex_acquired env" "us = 100"
    by (auto simp: log_console_def Let_def split: if_splits)
  have console: "log_console st env priority msg =
      [Printf (tstamp (t_stamp env) (core env) @ '' '' @ msg @ [CHR 0x0A]),
       Mutex_enter_timeout_us 100 False,
       Printf (tstamp (t_stamp env) (core env)
               @ '' mutex timeout: FAILED to access log rinbuffer'' @ [CHR 0x0A])]"
    using c by (simp add: log_console_def Let_def)
  have other: "hd (log_msg st (env\<lparr> mutex_acquired := True \<rparr>) priority message)
      = Printf (tstamp (t_stamp env) (core env) @ '' '' @ msg @ [CHR 0x0A])"
    using c trace [of "env\<lparr> mutex_acquired := True \<rparr>"] mem
    by (simp add: log_console_def Let_def)
  show ?thesis
    unfolding Let_def msg_def [symmetric]
    using c(4) other by (simp add: trace [OF mem] console)
qed


theorem log_msg_lock_timeout_witness:
  "Mutex_enter_timeout_us 100 False
     \<in> set (log_msg sample_log_state (sample_log_env\<lparr> mutex_acquired := False \<rparr>) 3 ''hi'')
   \<and> log_msg sample_log_state (sample_log_env\<lparr> mutex_acquired := False \<rparr>) 3 ''hi'' =
       [Printf (''[     1.500000][0] hi'' @ [CHR 0x0A]),
        Mutex_enter_timeout_us 100 False,
        Printf (''[     1.500000][0] mutex timeout: FAILED to access log rinbuffer'' @ [CHR 0x0A]),
        Syslog_msg 3 ''hi'']
   \<and> filter touches_store
         (log_msg sample_log_state (sample_log_env\<lparr> mutex_acquired := False \<rparr>) 3 ''hi'') = []
   \<and> length (filter is_lock_attempt
         (log_msg sample_log_state (sample_log_env\<lparr> mutex_acquired := False \<rparr>) 3 ''hi'')) = 1"
proof -
  have e: "log_msg sample_log_state (sample_log_env\<lparr> mutex_acquired := False \<rparr>) 3 ''hi'' =
       [Printf (''[     1.500000][0] hi'' @ [CHR 0x0A]),
        Mutex_enter_timeout_us 100 False,
        Printf (''[     1.500000][0] mutex timeout: FAILED to access log rinbuffer'' @ [CHR 0x0A]),
        Syslog_msg 3 ''hi'']"
    by (simp add: log_msg_def log_console_def log_remote_def log_slow_def Let_def
      sample_log_state_def sample_log_env_def sample_tstamp strip_newline_def snprintf_def
      LOG_MAX_MSG_LEN_def)
  have h: "Mutex_enter_timeout_us 100 False
     \<in> set (log_msg sample_log_state (sample_log_env\<lparr> mutex_acquired := False \<rparr>) 3 ''hi'')"
    by (simp add: e)
  show ?thesis using h e log_msg_lock_timeout [OF h] by (simp add: Let_def)
qed


subsection \<open>Threshold filtering\<close>





end
